theory Spec2Isabelle
  imports Complex_Main "HOL-Library.Word" "HOL-Library.Signed_Division"
begin

section \<open>Go values\<close>

text \<open>
  The package \<open>magicrest\<close> (file \<open>mgicrest/radhelper.go\<close>) turns the parameters of a
  query string into clauses on a GORM handle and pages the result. Go's \<open>int\<close> is taken
  to be 64 bits wide, as on every 64-bit platform, so \<open>int\<close> and \<open>int64\<close> are both
  \<open>64 word\<close>: addition, subtraction and multiplication wrap around, comparisons read
  the word as two's complement (\<open>\<le>s\<close>, \<open><s\<close>), and division truncates towards zero.
  A Go string is a sequence of bytes, here a \<open>string\<close> (a list of 8-bit characters).
\<close>

type_synonym int64 = "64 word"

text \<open>A run-time panic ends the call without a result.\<close>

datatype panic = IndexOutOfRange | DivideByZero

datatype 'a go = Panic panic | Ret 'a

text \<open>Go's \<open>/\<close> on \<open>int64\<close> for a non-zero divisor: the quotient truncated towards zero,
  wrapped to 64 bits (only \<open>MinInt64 / -1\<close> wraps).\<close>

definition quo64 :: "int64 \<Rightarrow> int64 \<Rightarrow> int64" where
  "quo64 a b = word_of_int (sint a sdiv sint b)"

section \<open>The functions of packages strings and strconv that the code calls\<close>

definition HasPrefix :: "string \<Rightarrow> string \<Rightarrow> bool" where
  "HasPrefix s p = (take (length p) s = p)"

definition HasSuffix :: "string \<Rightarrow> string \<Rightarrow> bool" where
  "HasSuffix s p = (length p \<le> length s \<and> drop (length s - length p) s = p)"

text \<open>\<open>strings.Contains\<close> and \<open>strings.Split\<close> are only called with a separator of one
  byte (\<open>","\<close> and \<open>"."\<close>), which is the second argument here. \<open>Split\<close> returns one more
  part than there are separators; on the empty string it returns one empty part.\<close>

definition Contains :: "string \<Rightarrow> char \<Rightarrow> bool" where
  "Contains s sep = (sep \<in> set s)"

fun Split :: "string \<Rightarrow> char \<Rightarrow> string list" where
  "Split [] sep = [[]]"
| "Split (c # s) sep =
     (if c = sep then [] # Split s sep
      else (case Split s sep of p # ps \<Rightarrow> (c # p) # ps | [] \<Rightarrow> [[c]]))"

text \<open>\<open>strings.Join\<close>.\<close>

fun Join :: "string list \<Rightarrow> string \<Rightarrow> string" where
  "Join [] sep = []"
| "Join [x] sep = x"
| "Join (x # y # ys) sep = x @ sep @ Join (y # ys) sep"

text \<open>\<open>strings.TrimSpace\<close> removes the white space runes of Unicode from both ends. In
  UTF-8 these are six ASCII bytes and the byte sequences of U+0085, U+00A0, U+1680,
  U+2000 to U+200A, U+2028, U+2029, U+202F, U+205F and U+3000.\<close>

definition spaceRunes :: "string list" where
  "spaceRunes =
     [[CHR 0x09], [CHR 0x0A], [CHR 0x0B], [CHR 0x0C], [CHR 0x0D], [CHR 0x20],
      [CHR 0xC2, CHR 0x85], [CHR 0xC2, CHR 0xA0], [CHR 0xE1, CHR 0x9A, CHR 0x80],
      [CHR 0xE2, CHR 0x80, CHR 0x80], [CHR 0xE2, CHR 0x80, CHR 0x81],
      [CHR 0xE2, CHR 0x80, CHR 0x82], [CHR 0xE2, CHR 0x80, CHR 0x83],
      [CHR 0xE2, CHR 0x80, CHR 0x84], [CHR 0xE2, CHR 0x80, CHR 0x85],
      [CHR 0xE2, CHR 0x80, CHR 0x86], [CHR 0xE2, CHR 0x80, CHR 0x87],
      [CHR 0xE2, CHR 0x80, CHR 0x88], [CHR 0xE2, CHR 0x80, CHR 0x89],
      [CHR 0xE2, CHR 0x80, CHR 0x8A], [CHR 0xE2, CHR 0x80, CHR 0xA8],
      [CHR 0xE2, CHR 0x80, CHR 0xA9], [CHR 0xE2, CHR 0x80, CHR 0xAF],
      [CHR 0xE2, CHR 0x81, CHR 0x9F], [CHR 0xE3, CHR 0x80, CHR 0x80]]"

text \<open>The length of the first of the sequences \<open>rs\<close> that \<open>s\<close> starts with, 0 when there
  is none.\<close>

fun runeAt :: "string list \<Rightarrow> string \<Rightarrow> nat" where
  "runeAt [] s = 0"
| "runeAt (r # rs) s = (if r \<noteq> [] \<and> take (length r) s = r then length r else runeAt rs s)"

function dropRunes :: "string list \<Rightarrow> string \<Rightarrow> string" where
  "dropRunes rs [] = []"
| "dropRunes rs (c # s) =
     (if runeAt rs (c # s) = 0 then c # s else dropRunes rs (drop (runeAt rs (c # s)) (c # s)))"
  by pat_completeness auto
termination
  by (relation "measure (\<lambda>(rs, s). length s)") auto

definition TrimSpace :: "string \<Rightarrow> string" where
  "TrimSpace s = rev (dropRunes (map rev spaceRunes) (rev (dropRunes spaceRunes s)))"

text \<open>\<open>strconv.Atoi\<close>: an optional sign, then one or more decimal digits, and the value
  must fit the 64-bit \<open>int\<close>; anything else is an error (\<open>None\<close>).\<close>

definition isDigit :: "char \<Rightarrow> bool" where
  "isDigit c = (48 \<le> (of_char c :: int) \<and> (of_char c :: int) \<le> 57)"

fun digitsVal :: "int \<Rightarrow> string \<Rightarrow> int option" where
  "digitsVal n [] = Some n"
| "digitsVal n (c # cs) =
     (if isDigit c then digitsVal (n * 10 + (of_char c - 48)) cs else None)"

definition Atoi :: "string \<Rightarrow> int64 option" where
  "Atoi s =
     (case s of
        [] \<Rightarrow> None
      | c # cs \<Rightarrow>
          (let ds = (if c = CHR ''-'' \<or> c = CHR ''+'' then cs else s) in
           if ds = [] then None
           else (case digitsVal 0 ds of
                   None \<Rightarrow> None
                 | Some n \<Rightarrow>
                     if c = CHR ''-''
                     then (if n \<le> 2 ^ 63 then Some (word_of_int (- n)) else None)
                     else (if n < 2 ^ 63 then Some (word_of_int n) else None))))"

section \<open>The query handle and the collaborators outside the package\<close>

text \<open>
  A \<open>*gorm.DB\<close> handle is the list of the clauses requested on it so far, in the order of
  the calls; every chained call (\<open>db.Where\<close>, \<open>db.Preload\<close>, ...) returns the handle with
  one more clause. The argument of a \<open>Where\<close> is an \<open>int\<close>, a \<open>string\<close>, an \<open>[]int\<close> or a
  \<open>[]string\<close>.
\<close>

datatype arg = ArgInt int64 | ArgString string | ArgInts "int64 list" | ArgStrings "string list"

datatype clause =
    Where string arg
  | Preload string
  | Select string
  | Group string
  | Order string
  | Limit int64
  | Offset int64

type_synonym DB = "clause list"

text \<open>
  What the package does not implement is a parameter: whether \<open>uuid.Parse\<close> accepts a
  string, and what the database answers to \<open>Count\<close> and to \<open>Find\<close> on a handle (an error
  message, or the number of rows and the rows).
\<close>

record 'row env =
  uuid_Parse :: "string \<Rightarrow> bool"
  db_Count :: "DB \<Rightarrow> string + int64"
  db_Find :: "DB \<Rightarrow> string + 'row list"

section \<open>PaginateGeneric\<close>

record pagination =
  page :: int64
  pageSize :: int64
  pageCount :: int64
  total :: int64
  hasNext :: bool
  hasPrev :: bool

text \<open>Lines 246 to 255: the map \<open>pagination\<close>, one field for each of its six keys.\<close>

definition paginationMeta :: "int64 \<Rightarrow> int64 \<Rightarrow> int64 \<Rightarrow> pagination" where
  "paginationMeta tot pg ps =
     (let totalPages = quo64 (tot + ps - 1) ps in
      \<lparr>page = pg, pageSize = ps, pageCount = totalPages, total = tot,
       hasNext = (pg <s totalPages),
       hasPrev = (1 <s pg \<and> 0 <s totalPages)\<rparr>)"

text \<open>The count runs on the handle as it is, the fetch on the handle with limit and
  offset. The division is reached after both and panics when \<open>pageSize\<close> is 0. The
  argument \<open>modelPtr\<close> is not used by the body.\<close>

definition PaginateGeneric ::
  "'row env \<Rightarrow> DB \<Rightarrow> int64 \<Rightarrow> int64 \<Rightarrow> (string + 'row list \<times> pagination) go" where
  "PaginateGeneric env db pg ps =
     (case db_Count env db of
        Inl err \<Rightarrow> Ret (Inl err)
      | Inr tot \<Rightarrow>
          (let offset = (pg - 1) * ps;
               findDB = db @ [Limit ps, Offset offset]
           in case db_Find env findDB of
                Inl err \<Rightarrow> Ret (Inl err)
              | Inr out \<Rightarrow>
                  if ps = 0 then Panic DivideByZero
                  else Ret (Inr (out, paginationMeta tot pg ps))))"

section \<open>Options, the raw parameters and the result\<close>

text \<open>
  A Go map is a reference: the field \<open>DefaultFieldTypes\<close> of an \<open>Options\<close> value holds
  either \<open>nil\<close> or the address of a map that the caller still holds, and copying the
  struct (it is passed by value) copies the address, not the map. The maps live in a
  store, from addresses to maps from field names to type names.
\<close>

type_synonym fieldTypes = "string \<rightharpoonup> string"

type_synonym store = "nat \<Rightarrow> fieldTypes"

record Options =
  SearchField :: string
  OrderBy :: string
  PreloadFields :: "string list"
  DefaultFieldTypes :: "nat option"
  DefaultPage :: int64
  DefaultPageSize :: int64
  AllowGroupBy :: bool

text \<open>
  \<open>url.Values\<close> is a \<open>map[string][]string\<close>. It is the list of its entries in the order
  in which the \<open>range\<close> loop over it visits them, which Go leaves open; the keys of a map
  are distinct. \<open>Values.Get\<close> returns the first value of a key, and the empty string when
  the key is absent or has no value.
\<close>

type_synonym Values = "(string \<times> string list) list"

definition Get :: "Values \<Rightarrow> string \<Rightarrow> string" where
  "Get v key =
     (case map_of v key of
        None \<Rightarrow> []
      | Some vs \<Rightarrow> (case vs of [] \<Rightarrow> [] | x # _ \<Rightarrow> x))"

datatype error = ErrInvalidFilter | QueryExecutionError string

text \<open>\<open>Result[T]\<close>: a slice and a map, each of which may be \<open>nil\<close> (\<open>None\<close>). The only
  value ever stored in \<open>Meta\<close> is the pagination map under the key \<open>"pagination"\<close>.\<close>

record 'row Result =
  Data :: "'row list option"
  Meta :: "(string \<rightharpoonup> pagination) option"

section \<open>ReadPaginated\<close>

subsection \<open>Lines 41 to 60: page and page size\<close>

definition resolvePage :: "Values \<Rightarrow> Options \<Rightarrow> int64" where
  "resolvePage query opts =
     (let pg = (if DefaultPage opts \<le>s 0 then 1 else DefaultPage opts);
          p = Get query ''page''
      in if p \<noteq> []
         then (case Atoi p of
                 Some pi' \<Rightarrow> if 0 <s pi' then pi' else pg
               | None \<Rightarrow> pg)
         else pg)"

definition resolvePageSize :: "Values \<Rightarrow> Options \<Rightarrow> int64" where
  "resolvePageSize query opts =
     (let ps = (if DefaultPageSize opts \<le>s 0 then 10 else DefaultPageSize opts);
          p = Get query ''pageSize''
      in if p \<noteq> []
         then (case Atoi p of
                 Some psi' \<Rightarrow> if 0 <s psi' then psi' else ps
               | None \<Rightarrow> ps)
         else ps)"

subsection \<open>Lines 65 to 81: the merge of the built-in field types\<close>

definition defaultAllowed :: "(string \<times> string) list" where
  "defaultAllowed =
     [(''id'', ''uuid''), (''status'', ''string''), (''jumlah'', ''int''), (''gudang_id'', ''uuid'')]"

text \<open>The body of the loop over \<open>defaultAllowed\<close>: a key that the map lacks is written
  into it. The four keys are distinct, so the order of the loop does not matter.\<close>

fun mergeInto :: "(string \<times> string) list \<Rightarrow> fieldTypes \<Rightarrow> fieldTypes" where
  "mergeInto [] m = m"
| "mergeInto ((k, v) # kvs) m = mergeInto kvs (if m k = None then m(k \<mapsto> v) else m)"

text \<open>
  With \<open>nil\<close> the local copy of the options is pointed at the fresh map
  \<open>defaultAllowed\<close>, which no caller can reach, and the store stays as it is. Otherwise
  the assignments \<open>opts.DefaultFieldTypes[k] = v\<close> go through the address to the map in
  the store. The result is the store after the merge and the map that the filter loop
  then reads.
\<close>

definition mergeDefaults :: "store \<Rightarrow> Options \<Rightarrow> store \<times> fieldTypes" where
  "mergeDefaults h opts =
     (case DefaultFieldTypes opts of
        None \<Rightarrow> (h, mergeInto defaultAllowed Map.empty)
      | Some a \<Rightarrow> (h(a := mergeInto defaultAllowed (h a)), mergeInto defaultAllowed (h a)))"

subsection \<open>Lines 83 to 147: the filter loop\<close>

text \<open>\<open>key[7 : len(key)-1]\<close>, in bounds when the key has the prefix and the suffix.\<close>

definition filterField :: "string \<Rightarrow> string" where
  "filterField key = drop 7 (take (length key - 1) key)"

text \<open>\<open>opts.DefaultFieldTypes[field]\<close>: the empty string for a key the map lacks.\<close>

definition fieldTypeOf :: "fieldTypes \<Rightarrow> string \<Rightarrow> string" where
  "fieldTypeOf ftypes field = (case ftypes field of None \<Rightarrow> [] | Some t \<Rightarrow> t)"

text \<open>The two inner loops over the parts: a part that does not parse sets the flag and
  is left out, the others are appended in order.\<close>

fun atoiParts :: "string list \<Rightarrow> int64 list \<Rightarrow> bool \<Rightarrow> int64 list \<times> bool" where
  "atoiParts [] ints invalidFilter = (ints, invalidFilter)"
| "atoiParts (v # vs) ints invalidFilter =
     (case Atoi v of
        None \<Rightarrow> atoiParts vs ints True
      | Some iv \<Rightarrow> atoiParts vs (ints @ [iv]) invalidFilter)"

fun uuidParts :: "'row env \<Rightarrow> string list \<Rightarrow> string list \<Rightarrow> bool \<Rightarrow> string list \<times> bool" where
  "uuidParts env [] uuids invalidFilter = (uuids, invalidFilter)"
| "uuidParts env (v # vs) uuids invalidFilter =
     (if \<not> uuid_Parse env v then uuidParts env vs uuids True
      else uuidParts env vs (uuids @ [v]) invalidFilter)"

text \<open>The body of the loop for one entry of the map, on the handle and the flag.\<close>

definition filterEntry ::
  "'row env \<Rightarrow> fieldTypes \<Rightarrow> string \<times> string list \<Rightarrow> DB \<times> bool \<Rightarrow> (DB \<times> bool) go" where
  "filterEntry env ftypes kv st =
     (case kv of (key, vals) \<Rightarrow> case st of (db, invalidFilter) \<Rightarrow>
        if HasPrefix key ''filter['' \<and> HasSuffix key '']'' then
          (let field = filterField key in
           if field = [] then Ret (db, invalidFilter)
           else
             (case vals of
                [] \<Rightarrow> Panic IndexOutOfRange
              | val # _ \<Rightarrow>
                  (let fieldType = fieldTypeOf ftypes field in
                   if Contains val CHR '','' then
                     (let parts = map TrimSpace (Split val CHR '','') in
                      if fieldType = ''int'' then
                        (case atoiParts parts [] invalidFilter of
                           (ints, flag) \<Rightarrow>
                             Ret (if ints \<noteq> [] then db @ [Where (field @ '' IN ?'') (ArgInts ints)]
                                  else db, flag))
                      else if fieldType = ''uuid'' then
                        (case uuidParts env parts [] invalidFilter of
                           (uuids, flag) \<Rightarrow>
                             Ret (if uuids \<noteq> []
                                  then db @ [Where (field @ '' IN ?'') (ArgStrings uuids)]
                                  else db, flag))
                      else Ret (db @ [Where (field @ '' IN ?'') (ArgStrings parts)], invalidFilter))
                   else if fieldType = ''int'' then
                     (case Atoi val of
                        None \<Rightarrow> Ret (db, True)
                      | Some iv \<Rightarrow> Ret (db @ [Where (field @ '' = ?'') (ArgInt iv)], invalidFilter))
                   else if fieldType = ''uuid'' then
                     (if \<not> uuid_Parse env val then Ret (db, True)
                      else Ret (db @ [Where (field @ '' = ?'') (ArgString val)], invalidFilter))
                   else Ret (db @ [Where (field @ '' = ?'') (ArgString val)], invalidFilter))))
        else Ret (db, invalidFilter))"

fun filterLoop :: "'row env \<Rightarrow> fieldTypes \<Rightarrow> Values \<Rightarrow> DB \<times> bool \<Rightarrow> (DB \<times> bool) go" where
  "filterLoop env ftypes [] st = Ret st"
| "filterLoop env ftypes (kv # rest) st =
     (case filterEntry env ftypes kv st of
        Panic p \<Rightarrow> Panic p
      | Ret st' \<Rightarrow> filterLoop env ftypes rest st')"

subsection \<open>Lines 153 to 207: preload, search, group by, order by\<close>

fun preloadAll :: "string list \<Rightarrow> DB \<Rightarrow> DB" where
  "preloadAll [] db = db"
| "preloadAll (f # fs) db = preloadAll fs (db @ [Preload f])"

fun preloadTrimmed :: "string list \<Rightarrow> DB \<Rightarrow> DB" where
  "preloadTrimmed [] db = db"
| "preloadTrimmed (f # fs) db =
     (if TrimSpace f \<noteq> [] then preloadTrimmed fs (db @ [Preload (TrimSpace f)])
      else preloadTrimmed fs db)"

definition applyPreload :: "Values \<Rightarrow> Options \<Rightarrow> DB \<Rightarrow> DB" where
  "applyPreload query opts db =
     (let preloadQuery = Get query ''preload'' in
      if preloadQuery \<noteq> [] then preloadTrimmed (Split preloadQuery CHR '','') db
      else preloadAll (PreloadFields opts) db)"

definition applySearch :: "Values \<Rightarrow> Options \<Rightarrow> DB \<Rightarrow> DB" where
  "applySearch query opts db =
     (let search = Get query ''search'' in
      if SearchField opts \<noteq> [] \<and> search \<noteq> [] then
        (if Contains (SearchField opts) CHR ''.'' then
           (case Split (SearchField opts) CHR ''.'' of
              [relation, field] \<Rightarrow>
                db @ [Where (relation @ ''.'' @ field @ '' ILIKE ?'') (ArgString (''%'' @ search @ ''%''))]
            | _ \<Rightarrow>
                db @ [Where (SearchField opts @ '' ILIKE ?'') (ArgString (''%'' @ search @ ''%''))])
         else db @ [Where (SearchField opts @ '' ILIKE ?'') (ArgString (''%'' @ search @ ''%''))])
      else db)"

definition applyGroupBy :: "Values \<Rightarrow> Options \<Rightarrow> DB \<Rightarrow> DB" where
  "applyGroupBy query opts db =
     (if AllowGroupBy opts then
        (let gq = Get query ''groupby'' in
         if gq \<noteq> [] then
           (let groupExpr = Join (map TrimSpace (Split gq CHR '','')) '', '' in
            db @ [Select (groupExpr @ '', MAX(created_at) as created_at''),
                  Group groupExpr,
                  Order ''MAX(created_at) desc''])
         else db)
      else db)"

definition applyOrderBy :: "Values \<Rightarrow> Options \<Rightarrow> DB \<Rightarrow> DB" where
  "applyOrderBy query opts db =
     (let qOrder = Get query ''order'';
          orderBy = (if qOrder \<noteq> [] then qOrder else OrderBy opts)
      in if orderBy \<noteq> [] then db @ [Order orderBy] else db @ [Order ''created_at desc''])"

text \<open>The four steps in the order of the source, on the handle that the filter loop
  leaves.\<close>

definition composeQuery :: "Values \<Rightarrow> Options \<Rightarrow> DB \<Rightarrow> DB" where
  "composeQuery query opts db1 =
     (let db2 = applyPreload query opts db1;
          db3 = applySearch query opts db2;
          db4 = applyGroupBy query opts db3;
          db5 = applyOrderBy query opts db4
      in db5)"

subsection \<open>The whole function\<close>

text \<open>The result is the store after the call and either a panic or the pair that the Go
  function returns. The argument \<open>modelPtr\<close> is only handed on to \<open>PaginateGeneric\<close>.\<close>

definition ReadPaginated ::
  "'row env \<Rightarrow> store \<Rightarrow> Values \<Rightarrow> DB \<Rightarrow> Options \<Rightarrow> store \<times> ('row Result \<times> error option) go" where
  "ReadPaginated env h query db opts =
     (let pg = resolvePage query opts;
          ps = resolvePageSize query opts
      in case mergeDefaults h opts of (h', ftypes) \<Rightarrow>
           (case filterLoop env ftypes query (db, False) of
              Panic p \<Rightarrow> (h', Panic p)
            | Ret (db1, invalidFilter) \<Rightarrow>
                if invalidFilter
                then (h', Ret (\<lparr>Data = Some [], Meta = Some Map.empty\<rparr>, Some ErrInvalidFilter))
                else
                  (case PaginateGeneric env (composeQuery query opts db1) pg ps of
                     Panic p \<Rightarrow> (h', Panic p)
                   | Ret (Inl err) \<Rightarrow>
                       (h', Ret (\<lparr>Data = None, Meta = None\<rparr>, Some (QueryExecutionError err)))
                   | Ret (Inr (rows, pagi)) \<Rightarrow>
                       (h', Ret (\<lparr>Data = Some rows,
                                  Meta = Some [''pagination'' \<mapsto> pagi]\<rparr>, None)))))"

definition ReadPaginatedFromGin ::
  "'row env \<Rightarrow> store \<Rightarrow> Values \<Rightarrow> DB \<Rightarrow> Options \<Rightarrow> store \<times> ('row Result \<times> error option) go" where
  "ReadPaginatedFromGin env h ctxQuery db opts = ReadPaginated env h ctxQuery db opts"

section \<open>What a request asks for\<close>

text \<open>The relations that a handle preloads and the expressions it orders by, in the
  order of the calls.\<close>

fun preloads :: "DB \<Rightarrow> string list" where
  "preloads [] = []"
| "preloads (c # cs) = (case c of Preload f \<Rightarrow> f # preloads cs | _ \<Rightarrow> preloads cs)"

fun orders :: "DB \<Rightarrow> string list" where
  "orders [] = []"
| "orders (c # cs) = (case c of Order e \<Rightarrow> e # orders cs | _ \<Rightarrow> orders cs)"

text \<open>
  Following the specification's words, for comparison with the loop of lines 84 to 147.
  The value of a filter is the first value of its key; \<open>valueParts\<close> is the value, or its
  trimmed comma-separated parts; \<open>validFor\<close> is validity for a declared type; and
  \<open>specCondition\<close> is the condition that the specification asks of a filter entry: Equals
  on the field with the one coerced value for a single value, In on the field with the
  coerced parts in their order for a comma-separated one, and nothing for a key that is
  no filter key with a field name.
\<close>

definition valueParts :: "string \<Rightarrow> string list" where
  "valueParts val = (if Contains val CHR '','' then map TrimSpace (Split val CHR '','') else [val])"

definition validFor :: "'row env \<Rightarrow> string \<Rightarrow> string \<Rightarrow> bool" where
  "validFor env fieldType v =
     (if fieldType = ''int'' then Atoi v \<noteq> None
      else if fieldType = ''uuid'' then uuid_Parse env v
      else True)"

definition specCondition :: "fieldTypes \<Rightarrow> string \<times> string list \<Rightarrow> clause list" where
  "specCondition ftypes kv =
     (case kv of (key, vals) \<Rightarrow>
        if HasPrefix key ''filter['' \<and> HasSuffix key '']'' \<and> filterField key \<noteq> [] then
          (case vals of
             [] \<Rightarrow> []
           | val # _ \<Rightarrow>
               if Contains val CHR '','' then
                 [Where (filterField key @ '' IN ?'')
                    (if fieldTypeOf ftypes (filterField key) = ''int''
                     then ArgInts (List.map_filter Atoi (valueParts val))
                     else ArgStrings (valueParts val))]
               else
                 [Where (filterField key @ '' = ?'')
                    (case (if fieldTypeOf ftypes (filterField key) = ''int'' then Atoi val else None) of
                       Some iv \<Rightarrow> ArgInt iv
                     | None \<Rightarrow> ArgString val)])
        else [])"

section \<open>Sample collaborators and inputs\<close>

text \<open>The worked examples below need a concrete database and a concrete UUID check.
  \<open>uuidCanonical\<close> accepts the 36-byte form \<open>xxxxxxxx-xxxx-xxxx-xxxx-xxxxxxxxxxxx\<close> of
  hexadecimal digits; \<open>sampleEnv n rows\<close> is a database that counts \<open>n\<close> rows and returns
  \<open>rows\<close> for every request; \<open>zeroOptions\<close> is the zero value \<open>Options{}\<close>.\<close>

definition isHex :: "char \<Rightarrow> bool" where
  "isHex c =
     (isDigit c \<or> (97 \<le> (of_char c :: int) \<and> (of_char c :: int) \<le> 102)
      \<or> (65 \<le> (of_char c :: int) \<and> (of_char c :: int) \<le> 70))"

fun uuidShape :: "nat \<Rightarrow> string \<Rightarrow> bool" where
  "uuidShape i [] = (i = 36)"
| "uuidShape i (c # cs) =
     (i < 36 \<and> (if i = 8 \<or> i = 13 \<or> i = 18 \<or> i = 23 then c = CHR ''-'' else isHex c)
      \<and> uuidShape (Suc i) cs)"

definition uuidCanonical :: "string \<Rightarrow> bool" where
  "uuidCanonical s = uuidShape 0 s"

definition sampleEnv :: "int64 \<Rightarrow> 'row list \<Rightarrow> 'row env" where
  "sampleEnv n rows =
     \<lparr>uuid_Parse = uuidCanonical, db_Count = (\<lambda>db. Inr n), db_Find = (\<lambda>db. Inr rows)\<rparr>"

definition zeroOptions :: Options where
  "zeroOptions =
     \<lparr>SearchField = [], OrderBy = [], PreloadFields = [], DefaultFieldTypes = None,
      DefaultPage = 0, DefaultPageSize = 0, AllowGroupBy = False\<rparr>"

text \<open>\<open>echoEnv\<close> is a database that counts no rows and returns, as its rows, the clauses
  of the request it is asked to fetch.\<close>

definition echoEnv :: "clause env" where
  "echoEnv =
     \<lparr>uuid_Parse = uuidCanonical, db_Count = (\<lambda>db. Inr 0),
      db_Find = (\<lambda>db. Inr db)\<rparr>"

definition emptyStore :: store where
  "emptyStore = (\<lambda>a. Map.empty)"

section \<open>Arithmetic on 64-bit integers\<close>

lemma ceil_div_int:
  fixes a b :: int
  assumes "0 < b"
  shows "(a + b - 1) div b = \<lceil>real_of_int a / real_of_int b\<rceil>"
proof -
  have e: "a = b * (a div b) + a mod b" by simp
  have r: "0 \<le> a mod b" "a mod b < b" using assms by simp_all
  have s: "(a + b - 1) div b = (a - 1) div b + 1"
  proof -
    have "a + b - 1 = (a - 1) + b" by simp
    then show ?thesis using assms by (metis div_add_self2 less_irrefl)
  qed
  have c: "\<lceil>real_of_int a / real_of_int b\<rceil> = - (- a div b)"
    by (rule ceiling_divide_eq_div)
  show ?thesis
  proof (cases "a mod b = 0")
    case True
    have "a - 1 = b * (a div b - 1) + (b - 1)" using e True by (simp add: algebra_simps)
    then have "(a - 1) div b = a div b - 1"
      using assms int_div_pos_eq [of "a - 1" b "a div b - 1" "b - 1"] by simp
    moreover have "- a div b = - (a div b)" using True assms
      by (simp add: zdiv_zminus1_eq_if)
    ultimately show ?thesis using s c by simp
  next
    case False
    have "a - 1 = b * (a div b) + (a mod b - 1)" using e by (simp add: algebra_simps)
    moreover have "0 \<le> a mod b - 1" "a mod b - 1 < b" using r False by simp_all
    ultimately have "(a - 1) div b = a div b"
      using int_div_pos_eq [of "a - 1" b "a div b" "a mod b - 1"] by simp
    moreover have "- a div b = - (a div b) - 1" using False assms
      by (simp add: zdiv_zminus1_eq_if)
    ultimately show ?thesis using s c by simp
  qed
qed

lemma sint_in_range:
  fixes k :: int
  assumes "- (2 ^ 63) \<le> k" "k < 2 ^ 63"
  shows "sint (word_of_int k :: int64) = k"
  using assms by (simp add: sint_sbintrunc' signed_take_bit_int_eq_self)

lemma quo64_nonneg:
  assumes "0 \<le> sint a" "0 < sint b"
  shows "sint (quo64 a b) = sint a div sint b"
proof -
  have d: "sint a sdiv sint b = sint a div sint b"
    using assms by (simp add: signed_divide_int_def sgn_if)
  have "0 \<le> sint a div sint b" using assms by (simp add: pos_imp_zdiv_nonneg_iff)
  moreover have "sint a div sint b \<le> sint a"
    using assms by (metis div_by_1 int_one_le_iff_zero_less zdiv_mono2 order_refl)
  moreover have "sint a < 2 ^ 63" using sint_lt [of a] by simp
  ultimately show ?thesis
    unfolding quo64_def d by (intro sint_in_range) auto
qed

lemma sint_sum_pred:
  fixes a b :: int64
  assumes "0 \<le> sint a" "1 \<le> sint b" "sint a + sint b - 1 < 2 ^ 63"
  shows "sint (a + b - 1) = sint a + sint b - 1"
proof -
  have "a + b - 1 = word_of_int (sint a + sint b - 1)"
    by simp
  then show ?thesis using assms by (simp only: sint_in_range)
qed

section \<open>The samples evaluated\<close>

lemma sampleEnv_simps:
  "uuid_Parse (sampleEnv n rows) = uuidCanonical"
  "db_Count (sampleEnv n rows) db = Inr n"
  "db_Find (sampleEnv n rows) db = Inr rows"
  by (simp_all add: sampleEnv_def)

lemma TrimSpace_category_id: "TrimSpace ''category_id'' = ''category_id''"
  by code_simp

lemma Split_category_id: "Split ''category_id'' CHR '','' = [''category_id'']"
  by code_simp

lemma zero_store: "fst (mergeDefaults emptyStore zeroOptions) = emptyStore"
  by (simp add: mergeDefaults_def zeroOptions_def)

lemma zero_fieldTypes:
  "fieldTypeOf (snd (mergeDefaults emptyStore zeroOptions)) ''jumlah'' = ''int''"
  "fieldTypeOf (snd (mergeDefaults emptyStore zeroOptions)) ''id'' = ''uuid''"
  "fieldTypeOf (snd (mergeDefaults emptyStore zeroOptions)) ''status'' = ''string''"
  by (simp_all add: mergeDefaults_def zeroOptions_def fieldTypeOf_def defaultAllowed_def)

lemma zero_types_direct:
  "fieldTypeOf (mergeInto defaultAllowed Map.empty) ''jumlah'' = ''int''"
  "fieldTypeOf (mergeInto defaultAllowed Map.empty) ''status'' = ''string''"
  by (simp_all add: fieldTypeOf_def defaultAllowed_def)

lemma Atoi_samples:
  "Atoi ''abc'' = None" "Atoi ''x'' = None" "Atoi ''-5'' = Some (- 5)" "Atoi ''2'' = Some 2"
  "Atoi ''5'' = Some 5" "Atoi ''1'' = Some 1" "Atoi ''3'' = Some 3"
  by code_simp+

lemma Atoi_max: "Atoi ''9223372036854775807'' = Some 9223372036854775807"
  by code_simp

lemma parts_samples:
  "map TrimSpace (Split ''1, x, 3'' CHR '','') = [''1'', ''x'', ''3'']"
  "map TrimSpace (Split ''1, 2,3'' CHR '','') = [''1'', ''2'', ''3'']"
  "map TrimSpace (Split ''A, B'' CHR '','') = [''A'', ''B'']"
  "map TrimSpace (Split ''A,,B'' CHR '','') = [''A'', [], ''B'']"
  by code_simp+

lemma echoEnv_simps:
  "uuid_Parse echoEnv = uuidCanonical"
  "db_Count echoEnv db = Inr 0"
  "db_Find echoEnv db = Inr db"
  by (simp_all add: echoEnv_def)

lemma echo_run:
  "PaginateGeneric echoEnv db 1 10 = Ret (Inr (db @ [Limit 10, Offset 0], paginationMeta 0 1 10))"
  by (simp add: PaginateGeneric_def echoEnv_simps)

lemma sample_filters_valid:
  "list_all (validFor echoEnv ''int'') (valueParts ''1, 2,3'')"
  "list_all (validFor echoEnv ''string'') (valueParts ''active'')"
  "list_all (validFor echoEnv ''uuid'') (valueParts ''123e4567-e89b-12d3-a456-426614174000'')"
  by code_simp+

lemma sample_filter_keys:
  "HasPrefix ''filter[jumlah]'' ''filter[''" "HasSuffix ''filter[jumlah]'' '']''"
  "filterField ''filter[jumlah]'' = ''jumlah''"
  "HasPrefix ''filter[status]'' ''filter[''" "HasSuffix ''filter[status]'' '']''"
  "filterField ''filter[status]'' = ''status''"
  "HasPrefix ''filter[id]'' ''filter[''" "HasSuffix ''filter[id]'' '']''"
  "filterField ''filter[id]'' = ''id''"
  by (simp_all add: HasPrefix_def HasSuffix_def filterField_def)

lemma sample_conditions:
  "specCondition (snd (mergeDefaults emptyStore zeroOptions)) (''filter[jumlah]'', [''1, 2,3''])
     = [Where ''jumlah IN ?'' (ArgInts [1, 2, 3])]"
  "specCondition (snd (mergeDefaults emptyStore zeroOptions)) (''filter[status]'', [''active'', ''other''])
     = [Where ''status = ?'' (ArgString ''active'')]"
  "specCondition (snd (mergeDefaults emptyStore zeroOptions))
     (''filter[id]'', [''123e4567-e89b-12d3-a456-426614174000''])
     = [Where ''id = ?'' (ArgString ''123e4567-e89b-12d3-a456-426614174000'')]"
  by code_simp+

section \<open>The loops in closed form\<close>

lemma preloadAll_eq: "preloadAll fs db = db @ map Preload fs"
  by (induction fs arbitrary: db) simp_all

lemma preloadTrimmed_eq:
  "preloadTrimmed fs db = db @ map Preload (filter (\<lambda>f. f \<noteq> []) (map TrimSpace fs))"
  by (induction fs arbitrary: db) simp_all

lemma filter_key_recognised:
  "HasPrefix (''filter['' @ field @ '']'') ''filter[''"
  "HasSuffix (''filter['' @ field @ '']'') '']''"
  "filterField (''filter['' @ field @ '']'') = field"
  by (simp_all add: HasPrefix_def HasSuffix_def filterField_def)

lemma atoiParts_eq:
  "atoiParts ps acc b = (acc @ List.map_filter Atoi ps, b \<or> (\<exists>p\<in>set ps. Atoi p = None))"
  by (induction ps arbitrary: acc b) (auto simp: List.map_filter_simps split: option.splits)

lemma uuidParts_eq:
  "uuidParts env ps acc b =
     (acc @ filter (uuid_Parse env) ps, b \<or> (\<exists>p\<in>set ps. \<not> uuid_Parse env p))"
  by (induction ps arbitrary: acc b) auto

lemma map_filter_all_Some: "map f ps = map Some xs \<Longrightarrow> List.map_filter f ps = xs"
  by (induction ps arbitrary: xs) (auto simp: List.map_filter_simps)

lemma filterEntry_Panic_iff:
  "filterEntry env ft (k, vs) (db, b) = Panic p \<longleftrightarrow>
     HasPrefix k ''filter['' \<and> HasSuffix k '']'' \<and> filterField k \<noteq> [] \<and> vs = []
     \<and> p = IndexOutOfRange"
  by (auto simp: filterEntry_def Let_def atoiParts_eq uuidParts_eq split: list.splits option.splits)

lemma filterEntry_other_key:
  assumes "\<not> (HasPrefix k ''filter['' \<and> HasSuffix k '']'' \<and> filterField k \<noteq> [])"
  shows "filterEntry env ft (k, vs) (db, b) = Ret (db, b)"
  using assms by (auto simp: filterEntry_def Let_def)

lemma filterEntry_flag_kept:
  "filterEntry env ft kv (db, True) = Ret (db', b') \<Longrightarrow> b'"
  by (cases kv) (auto simp: filterEntry_def Let_def atoiParts_eq uuidParts_eq
      split: list.splits option.splits if_splits)

lemma filterEntry_uuid_free:
  "filterEntry (env\<lparr>db_Count := cnt, db_Find := fnd\<rparr>) ft kv st = filterEntry env ft kv st"
  by (cases kv; cases st) (simp add: filterEntry_def Let_def uuidParts_eq split: list.splits)

lemma filterLoop_uuid_free:
  "filterLoop (env\<lparr>db_Count := cnt, db_Find := fnd\<rparr>) ft q st = filterLoop env ft q st"
  by (induction q arbitrary: st) (simp_all add: filterEntry_uuid_free split: go.splits)

lemma filterLoop_flag_kept:
  "filterLoop env ft q (db, True) = Ret (db', b') \<Longrightarrow> b'"
proof (induction q arbitrary: db)
  case Nil
  then show ?case by simp
next
  case (Cons kv q)
  show ?case
  proof (cases "filterEntry env ft kv (db, True)")
    case (Panic p)
    with Cons.prems show ?thesis by simp
  next
    case (Ret st)
    obtain d b where st: "st = (d, b)" by (cases st)
    from Ret st have b using filterEntry_flag_kept by blast
    with Cons.prems Ret st Cons.IH [of d] show ?thesis by simp
  qed
qed

lemma filterEntry_filter_key:
  assumes "HasPrefix k ''filter[''" and "HasSuffix k '']''" and "filterField k \<noteq> []"
  shows "filterEntry env ft (k, val # rest) (db, b) =
    (if Contains val CHR '','' then
       (if fieldTypeOf ft (filterField k) = ''int'' then
          Ret (if List.map_filter Atoi (map TrimSpace (Split val CHR '','')) \<noteq> []
               then db @ [Where (filterField k @ '' IN ?'')
                            (ArgInts (List.map_filter Atoi (map TrimSpace (Split val CHR '',''))))]
               else db,
               b \<or> (\<exists>p\<in>set (map TrimSpace (Split val CHR '','')). Atoi p = None))
        else if fieldTypeOf ft (filterField k) = ''uuid'' then
          Ret (if filter (uuid_Parse env) (map TrimSpace (Split val CHR '','')) \<noteq> []
               then db @ [Where (filterField k @ '' IN ?'')
                            (ArgStrings (filter (uuid_Parse env) (map TrimSpace (Split val CHR '',''))))]
               else db,
               b \<or> (\<exists>p\<in>set (map TrimSpace (Split val CHR '','')). \<not> uuid_Parse env p))
        else Ret (db @ [Where (filterField k @ '' IN ?'')
                          (ArgStrings (map TrimSpace (Split val CHR '','')))], b))
     else if fieldTypeOf ft (filterField k) = ''int'' then
       (case Atoi val of
          None \<Rightarrow> Ret (db, True)
        | Some iv \<Rightarrow> Ret (db @ [Where (filterField k @ '' = ?'') (ArgInt iv)], b))
     else if fieldTypeOf ft (filterField k) = ''uuid'' then
       (if \<not> uuid_Parse env val then Ret (db, True)
        else Ret (db @ [Where (filterField k @ '' = ?'') (ArgString val)], b))
     else Ret (db @ [Where (filterField k @ '' = ?'') (ArgString val)], b))"
  using assms by (simp add: filterEntry_def Let_def atoiParts_eq uuidParts_eq)

lemma filterEntry_sets_flag:
  assumes k: "HasPrefix k ''filter[''" "HasSuffix k '']''" "filterField k \<noteq> []"
    and v: "v \<in> set (if Contains val CHR '','' then map TrimSpace (Split val CHR '','') else [val])"
    and bad: "fieldTypeOf ft (filterField k) = ''int'' \<and> Atoi v = None
         \<or> fieldTypeOf ft (filterField k) = ''uuid'' \<and> \<not> uuid_Parse env v"
  shows "\<exists>db'. filterEntry env ft (k, val # rest) (db, b) = Ret (db', True)"
proof (cases "Contains val CHR '',''")
  case True
  with v bad show ?thesis
    unfolding filterEntry_filter_key [OF k] by auto
next
  case False
  with v bad show ?thesis
    unfolding filterEntry_filter_key [OF k] by auto
qed

lemma filterLoop_total:
  assumes "\<forall>(k, vs)\<in>set q. HasPrefix k ''filter['' \<and> HasSuffix k '']'' \<and> filterField k \<noteq> [] \<longrightarrow> vs \<noteq> []"
  shows "\<exists>db' b'. filterLoop env ft q (db, b) = Ret (db', b')"
  using assms
proof (induction q arbitrary: db b)
  case Nil
  then show ?case by simp
next
  case (Cons kv q)
  obtain k vs where kv: "kv = (k, vs)" by (cases kv)
  have "\<forall>p. filterEntry env ft (k, vs) (db, b) \<noteq> Panic p"
    using Cons.prems kv by (auto simp: filterEntry_Panic_iff)
  then obtain d c where "filterEntry env ft (k, vs) (db, b) = Ret (d, c)"
    by (cases "filterEntry env ft (k, vs) (db, b)") auto
  moreover have "\<exists>db' b'. filterLoop env ft q (d, c) = Ret (db', b')"
    using Cons.prems by (intro Cons.IH) auto
  ultimately show ?case using kv by simp
qed

lemma filterLoop_sets_flag:
  assumes wf: "\<forall>(k, vs)\<in>set q. HasPrefix k ''filter['' \<and> HasSuffix k '']'' \<and> filterField k \<noteq> [] \<longrightarrow> vs \<noteq> []"
    and mem: "(k, val # rest) \<in> set q"
    and k: "HasPrefix k ''filter[''" "HasSuffix k '']''" "filterField k \<noteq> []"
    and v: "v \<in> set (if Contains val CHR '','' then map TrimSpace (Split val CHR '','') else [val])"
    and bad: "fieldTypeOf ft (filterField k) = ''int'' \<and> Atoi v = None
         \<or> fieldTypeOf ft (filterField k) = ''uuid'' \<and> \<not> uuid_Parse env v"
  shows "\<exists>db'. filterLoop env ft q (db, b) = Ret (db', True)"
  using wf mem
proof (induction q arbitrary: db b)
  case Nil
  then show ?case by simp
next
  case (Cons kv q)
  have wfq: "\<forall>(k, vs)\<in>set q. HasPrefix k ''filter['' \<and> HasSuffix k '']'' \<and> filterField k \<noteq> [] \<longrightarrow> vs \<noteq> []"
    using Cons.prems(1) by auto
  show ?case
  proof (cases "kv = (k, val # rest)")
    case True
    obtain d where d: "filterEntry env ft kv (db, b) = Ret (d, True)"
      using filterEntry_sets_flag [OF k v bad] True by blast
    obtain db' b' where l: "filterLoop env ft q (d, True) = Ret (db', b')"
      using filterLoop_total [OF wfq] by blast
    then have b' by (rule filterLoop_flag_kept)
    with d l show ?thesis by simp
  next
    case False
    then have m: "(k, val # rest) \<in> set q"
      using Cons.prems(2) by simp
    obtain k' vs where kv: "kv = (k', vs)" by (cases kv)
    have "\<forall>p. filterEntry env ft (k', vs) (db, b) \<noteq> Panic p"
      using Cons.prems(1) kv by (auto simp: filterEntry_Panic_iff)
    then obtain d c where e: "filterEntry env ft kv (db, b) = Ret (d, c)"
      using kv by (cases "filterEntry env ft (k', vs) (db, b)") auto
    from Cons.IH [OF wfq m, of d c] e show ?thesis by simp
  qed
qed

lemma filterLoop_Panic_kind: "filterLoop env ft q st = Panic p \<Longrightarrow> p = IndexOutOfRange"
proof (induction q arbitrary: st)
  case Nil
  then show ?case by simp
next
  case (Cons kv q)
  obtain k vs d b where kv: "kv = (k, vs)" and st: "st = (d, b)" by (cases kv; cases st) auto
  show ?case
  proof (cases "filterEntry env ft kv st")
    case (Panic p')
    with Cons.prems have "p' = p" by simp
    with Panic kv st show ?thesis by (simp add: filterEntry_Panic_iff)
  next
    case (Ret st')
    with Cons show ?thesis by simp
  qed
qed

lemma filterLoop_empty_values:
  assumes mem: "(k, []) \<in> set q"
    and k: "HasPrefix k ''filter[''" "HasSuffix k '']''" "filterField k \<noteq> []"
  shows "filterLoop env ft q st = Panic IndexOutOfRange"
  using mem
proof (induction q arbitrary: st)
  case Nil
  then show ?case by simp
next
  case (Cons kv q)
  obtain d b where st: "st = (d, b)" by (cases st)
  show ?case
  proof (cases "kv = (k, [])")
    case True
    then have "filterEntry env ft kv st = Panic IndexOutOfRange"
      using k st by (simp add: filterEntry_Panic_iff)
    then show ?thesis by simp
  next
    case False
    then have m: "(k, []) \<in> set q" using Cons.prems by simp
    show ?thesis
    proof (cases "filterEntry env ft kv st")
      case (Panic p)
      then have "filterLoop env ft (kv # q) st = Panic p" by simp
      then show ?thesis using filterLoop_Panic_kind by blast
    next
      case (Ret st')
      then show ?thesis using Cons.IH [OF m] by simp
    qed
  qed
qed

lemma filterEntry_flag_origin:
  assumes r: "filterEntry env ft (k, vs) (db, False) = Ret (db', True)"
  shows "\<exists>val rest v. vs = val # rest
     \<and> HasPrefix k ''filter['' \<and> HasSuffix k '']'' \<and> filterField k \<noteq> []
     \<and> v \<in> set (if Contains val CHR '','' then map TrimSpace (Split val CHR '','') else [val])
     \<and> (fieldTypeOf ft (filterField k) = ''int'' \<and> Atoi v = None
         \<or> fieldTypeOf ft (filterField k) = ''uuid'' \<and> \<not> uuid_Parse env v)"
proof -
  have k: "HasPrefix k ''filter[''" "HasSuffix k '']''" "filterField k \<noteq> []"
    using r filterEntry_other_key [of k env ft vs db False] by auto
  have "vs \<noteq> []"
  proof
    assume "vs = []"
    with k have "filterEntry env ft (k, vs) (db, False) = Panic IndexOutOfRange"
      by (simp add: filterEntry_Panic_iff)
    with r show False by simp
  qed
  then obtain val rest where vs: "vs = val # rest"
    by (cases vs) auto
  note e = r [unfolded vs filterEntry_filter_key [OF k]]
  have "\<exists>v. v \<in> set (if Contains val CHR '','' then map TrimSpace (Split val CHR '','') else [val])
     \<and> (fieldTypeOf ft (filterField k) = ''int'' \<and> Atoi v = None
         \<or> fieldTypeOf ft (filterField k) = ''uuid'' \<and> \<not> uuid_Parse env v)"
  proof (cases "Contains val CHR '',''")
    case c: True
    show ?thesis
    proof (cases "fieldTypeOf ft (filterField k) = ''int''")
      case True
      with e c show ?thesis by auto
    next
      case False
      with e c show ?thesis by (cases "fieldTypeOf ft (filterField k) = ''uuid''") auto
    qed
  next
    case c: False
    show ?thesis
    proof (cases "fieldTypeOf ft (filterField k) = ''int''")
      case True
      with e c show ?thesis by (cases "Atoi val") auto
    next
      case False
      with e c show ?thesis
        by (cases "fieldTypeOf ft (filterField k) = ''uuid''"; cases "uuid_Parse env val") auto
    qed
  qed
  with vs k show ?thesis by blast
qed

lemma filterLoop_flag_origin:
  assumes "filterLoop env ft q (db, False) = Ret (db', True)"
  shows "\<exists>k val rest v. (k, val # rest) \<in> set q
     \<and> HasPrefix k ''filter['' \<and> HasSuffix k '']'' \<and> filterField k \<noteq> []
     \<and> v \<in> set (if Contains val CHR '','' then map TrimSpace (Split val CHR '','') else [val])
     \<and> (fieldTypeOf ft (filterField k) = ''int'' \<and> Atoi v = None
         \<or> fieldTypeOf ft (filterField k) = ''uuid'' \<and> \<not> uuid_Parse env v)"
  using assms
proof (induction q arbitrary: db)
  case Nil
  then show ?case by simp
next
  case (Cons kv q)
  obtain k vs where kv: "kv = (k, vs)" by (cases kv)
  show ?case
  proof (cases "filterEntry env ft (k, vs) (db, False)")
    case (Panic p)
    with Cons.prems kv show ?thesis by simp
  next
    case (Ret st)
    obtain d b where st: "st = (d, b)" by (cases st)
    show ?thesis
    proof (cases b)
      case True
      with Ret st have "filterEntry env ft (k, vs) (db, False) = Ret (d, True)" by simp
      from filterEntry_flag_origin [OF this] obtain val rest v where
        "vs = val # rest"
        "HasPrefix k ''filter['' \<and> HasSuffix k '']'' \<and> filterField k \<noteq> []"
        "v \<in> set (if Contains val CHR '','' then map TrimSpace (Split val CHR '','') else [val])"
        "fieldTypeOf ft (filterField k) = ''int'' \<and> Atoi v = None
         \<or> fieldTypeOf ft (filterField k) = ''uuid'' \<and> \<not> uuid_Parse env v"
        by blast
      moreover from this kv have "(k, val # rest) \<in> set (kv # q)" by simp
      ultimately show ?thesis by blast
    next
      case False
      with Cons.prems kv Ret st have "filterLoop env ft q (d, False) = Ret (db', True)" by simp
      from Cons.IH [OF this] obtain k' val rest v where
        "(k', val # rest) \<in> set q"
        "HasPrefix k' ''filter['' \<and> HasSuffix k' '']'' \<and> filterField k' \<noteq> []"
        "v \<in> set (if Contains val CHR '','' then map TrimSpace (Split val CHR '','') else [val])"
        "fieldTypeOf ft (filterField k') = ''int'' \<and> Atoi v = None
         \<or> fieldTypeOf ft (filterField k') = ''uuid'' \<and> \<not> uuid_Parse env v"
        by blast
      moreover from this have "(k', val # rest) \<in> set (kv # q)" by simp
      ultimately show ?thesis by blast
    qed
  qed
qed

lemma no_filter_loop:
  "filterLoop env ft [(''preload'', vs)] (db, b) = Ret (db, b)"
  "filterLoop env ft [(''page'', vs)] (db, b) = Ret (db, b)"
  "filterLoop env ft [(''groupby'', vs), (''order'', ws)] (db, b) = Ret (db, b)"
  "filterLoop env ft [(''order'', ws)] (db, b) = Ret (db, b)"
  by (simp_all add: filterEntry_def HasPrefix_def)

lemma preloads_append: "preloads (a @ b) = preloads a @ preloads b"
  by (induction a) (simp_all split: clause.splits)

lemma orders_append: "orders (a @ b) = orders a @ orders b"
  by (induction a) (simp_all split: clause.splits)

lemma preloads_map_Preload: "preloads (map Preload fs) = fs"
  by (induction fs) simp_all

lemma orders_map_Preload: "orders (map Preload fs) = []"
  by (induction fs) simp_all

lemma filterEntry_adds_Where:
  "filterEntry env ft kv (db, b) = Ret (db', b') \<Longrightarrow>
     \<exists>ws. db' = db @ ws \<and> preloads ws = [] \<and> orders ws = []"
proof -
  obtain k vs where kv: "kv = (k, vs)" by (cases kv)
  assume r: "filterEntry env ft kv (db, b) = Ret (db', b')"
  show ?thesis
  proof (cases "HasPrefix k ''filter['' \<and> HasSuffix k '']'' \<and> filterField k \<noteq> []")
    case False
    with r kv have "db' = db" by (simp add: filterEntry_other_key)
    then show ?thesis by simp
  next
    case True
    then have k: "HasPrefix k ''filter[''" "HasSuffix k '']''" "filterField k \<noteq> []" by simp_all
    show ?thesis
    proof (cases vs)
      case Nil
      with r kv k show ?thesis
        using filterEntry_Panic_iff [of env ft k vs db b IndexOutOfRange] by simp
    next
      case (Cons val rest)
      from r show ?thesis
        unfolding kv Cons filterEntry_filter_key [OF k]
        by (auto split: if_splits option.splits)
    qed
  qed
qed

lemma filterLoop_adds_Where:
  "filterLoop env ft q (db, b) = Ret (db', b') \<Longrightarrow>
     \<exists>ws. db' = db @ ws \<and> preloads ws = [] \<and> orders ws = []"
proof (induction q arbitrary: db b)
  case Nil
  then show ?case by simp
next
  case (Cons kv q)
  show ?case
  proof (cases "filterEntry env ft kv (db, b)")
    case (Panic p)
    with Cons.prems show ?thesis by simp
  next
    case (Ret st)
    obtain d c where st: "st = (d, c)" by (cases st)
    from filterEntry_adds_Where Ret st obtain ws
      where ws: "d = db @ ws" "preloads ws = []" "orders ws = []" by blast
    from Cons.prems Ret st have "filterLoop env ft q (d, c) = Ret (db', b')" by simp
    from Cons.IH [OF this] obtain ws' where "db' = d @ ws'" "preloads ws' = []" "orders ws' = []"
      by blast
    with ws have "db' = db @ (ws @ ws')" "preloads (ws @ ws') = []" "orders (ws @ ws') = []"
      by (simp_all add: preloads_append orders_append)
    then show ?thesis by blast
  qed
qed

lemma specCondition_filter_key:
  assumes "HasPrefix k ''filter[''" and "HasSuffix k '']''" and "filterField k \<noteq> []"
  shows "specCondition ft (k, val # rest) =
      (if Contains val CHR '','' then
         [Where (filterField k @ '' IN ?'')
            (if fieldTypeOf ft (filterField k) = ''int''
             then ArgInts (List.map_filter Atoi (map TrimSpace (Split val CHR '','')))
             else ArgStrings (map TrimSpace (Split val CHR '','')))]
       else
         [Where (filterField k @ '' = ?'')
            (case (if fieldTypeOf ft (filterField k) = ''int'' then Atoi val else None) of
               Some iv \<Rightarrow> ArgInt iv
             | None \<Rightarrow> ArgString val)])"
  using assms by (simp add: specCondition_def valueParts_def)

lemma filterEntry_valid:
  assumes "HasPrefix k ''filter['' \<and> HasSuffix k '']'' \<and> filterField k \<noteq> [] \<longrightarrow>
      (\<exists>val rest. vs = val # rest
         \<and> list_all (validFor env (fieldTypeOf ft (filterField k))) (valueParts val))"
  shows "filterEntry env ft (k, vs) (db, b) = Ret (db @ specCondition ft (k, vs), b)"
proof (cases "HasPrefix k ''filter['' \<and> HasSuffix k '']'' \<and> filterField k \<noteq> []")
  case False
  then show ?thesis by (auto simp: filterEntry_other_key specCondition_def)
next
  case True
  then have k: "HasPrefix k ''filter[''" "HasSuffix k '']''" "filterField k \<noteq> []" by simp_all
  from True assms obtain val rest where vs: "vs = val # rest"
    and ok: "list_all (validFor env (fieldTypeOf ft (filterField k))) (valueParts val)"
    by blast
  let ?parts = "map TrimSpace (Split val CHR '','')"
  have ne: "?parts \<noteq> []" by (cases val) (auto split: list.splits)
  show ?thesis
  proof (cases "Contains val CHR '',''")
    case c: True
    then have vp: "valueParts val = ?parts" by (simp add: valueParts_def)
    show ?thesis
    proof (cases "fieldTypeOf ft (filterField k) = ''int''")
      case True
      with ok vp have all: "\<forall>p\<in>set ?parts. Atoi p \<noteq> None"
        by (simp add: validFor_def list_all_iff)
      then have "map Atoi ?parts = map Some (map (the \<circ> Atoi) ?parts)" by auto
      then have mf: "List.map_filter Atoi ?parts = map (the \<circ> Atoi) ?parts"
        by (rule map_filter_all_Some)
      with ne have "List.map_filter Atoi ?parts \<noteq> []" by simp
      with all c True show ?thesis
        unfolding vs filterEntry_filter_key [OF k]
        by (auto simp: specCondition_def k vp simp del: map_map set_map)
    next
      case False
      show ?thesis
      proof (cases "fieldTypeOf ft (filterField k) = ''uuid''")
        case u: True
        with ok vp have "\<forall>p\<in>set ?parts. uuid_Parse env p"
          by (simp add: validFor_def list_all_iff)
        then have "filter (uuid_Parse env) ?parts = ?parts" by (simp del: set_map)
        with ne u c False \<open>\<forall>p\<in>set ?parts. uuid_Parse env p\<close> show ?thesis
          unfolding vs filterEntry_filter_key [OF k]
          by (auto simp: specCondition_def k vp simp del: map_map set_map)
      next
        case n: False
        with c False show ?thesis
          unfolding vs filterEntry_filter_key [OF k]
          by (simp add: specCondition_def k vp)
      qed
    qed
  next
    case c: False
    then have vp: "valueParts val = [val]" by (simp add: valueParts_def)
    show ?thesis
    proof (cases "fieldTypeOf ft (filterField k) = ''int''")
      case True
      with ok vp obtain iv where "Atoi val = Some iv" by (auto simp: validFor_def)
      with c True show ?thesis
        unfolding vs filterEntry_filter_key [OF k]
        by (simp add: specCondition_def k)
    next
      case False
      show ?thesis
      proof (cases "fieldTypeOf ft (filterField k) = ''uuid''")
        case u: True
        with ok vp have "uuid_Parse env val" by (simp add: validFor_def)
        with c u show ?thesis
          unfolding vs filterEntry_filter_key [OF k]
          by (simp add: specCondition_def k)
      next
        case n: False
        with c False show ?thesis
          unfolding vs filterEntry_filter_key [OF k]
          by (simp add: specCondition_def k)
      qed
    qed
  qed
qed

lemma filterLoop_valid:
  assumes "\<forall>(k, vs)\<in>set q. HasPrefix k ''filter['' \<and> HasSuffix k '']'' \<and> filterField k \<noteq> [] \<longrightarrow>
      (\<exists>val rest. vs = val # rest
         \<and> list_all (validFor env (fieldTypeOf ft (filterField k))) (valueParts val))"
  shows "filterLoop env ft q (db, b) = Ret (db @ concat (map (specCondition ft) q), b)"
  using assms
proof (induction q arbitrary: db)
  case Nil
  then show ?case by simp
next
  case (Cons kv q)
  obtain k vs where kv: "kv = (k, vs)" by (cases kv)
  have e: "filterEntry env ft (k, vs) (db, b) = Ret (db @ specCondition ft (k, vs), b)"
    using Cons.prems kv by (intro filterEntry_valid) auto
  have "filterLoop env ft q (db @ specCondition ft (k, vs), b)
      = Ret ((db @ specCondition ft (k, vs)) @ concat (map (specCondition ft) q), b)"
    using Cons.prems by (intro Cons.IH) auto
  with e kv show ?case by simp
qed

section \<open>The composed request\<close>

lemma applyPreload_closed:
  "applyPreload query opts db =
     db @ map Preload
       (if Get query ''preload'' \<noteq> []
        then filter (\<lambda>f. f \<noteq> []) (map TrimSpace (Split (Get query ''preload'') CHR '',''))
        else PreloadFields opts)"
  by (simp add: applyPreload_def Let_def preloadTrimmed_eq preloadAll_eq)

lemma applySearch_closed:
  "\<exists>ws. applySearch query opts db = db @ ws \<and> preloads ws = [] \<and> orders ws = []"
  by (auto simp: applySearch_def Let_def split: list.splits)

lemma applyGroupBy_closed:
  "applyGroupBy query opts db =
     db @ (if AllowGroupBy opts \<and> Get query ''groupby'' \<noteq> []
           then [Select (Join (map TrimSpace (Split (Get query ''groupby'') CHR '','')) '', ''
                         @ '', MAX(created_at) as created_at''),
                 Group (Join (map TrimSpace (Split (Get query ''groupby'') CHR '','')) '', ''),
                 Order ''MAX(created_at) desc'']
           else [])"
  by (simp add: applyGroupBy_def Let_def)

lemma applyOrderBy_closed:
  "applyOrderBy query opts db =
     db @ [Order (if Get query ''order'' \<noteq> [] then Get query ''order''
                  else if OrderBy opts \<noteq> [] then OrderBy opts
                  else ''created_at desc'')]"
  by (simp add: applyOrderBy_def Let_def)

lemma composeQuery_preloads:
  "preloads (composeQuery query opts db) =
     preloads db @
       (if Get query ''preload'' \<noteq> []
        then filter (\<lambda>f. f \<noteq> []) (map TrimSpace (Split (Get query ''preload'') CHR '',''))
        else PreloadFields opts)"
proof -
  obtain ws where ws: "applySearch query opts (applyPreload query opts db)
      = applyPreload query opts db @ ws" "preloads ws = []"
    using applySearch_closed by blast
  have "composeQuery query opts db =
      applyGroupBy query opts (applyPreload query opts db @ ws)
      @ [Order (if Get query ''order'' \<noteq> [] then Get query ''order''
                else if OrderBy opts \<noteq> [] then OrderBy opts
                else ''created_at desc'')]"
    by (simp only: composeQuery_def Let_def applyOrderBy_closed ws(1))
  then show ?thesis
    by (simp add: applyGroupBy_closed applyPreload_closed preloads_append preloads_map_Preload ws(2))
qed

lemma composeQuery_orders:
  "orders (composeQuery query opts db) =
     orders db @
       (if AllowGroupBy opts \<and> Get query ''groupby'' \<noteq> [] then [''MAX(created_at) desc''] else [])
       @ [if Get query ''order'' \<noteq> [] then Get query ''order''
          else if OrderBy opts \<noteq> [] then OrderBy opts
          else ''created_at desc'']"
proof -
  obtain ws where ws: "applySearch query opts (applyPreload query opts db)
      = applyPreload query opts db @ ws" "orders ws = []"
    using applySearch_closed by blast
  have "composeQuery query opts db =
      applyGroupBy query opts (applyPreload query opts db @ ws)
      @ [Order (if Get query ''order'' \<noteq> [] then Get query ''order''
                else if OrderBy opts \<noteq> [] then OrderBy opts
                else ''created_at desc'')]"
    by (simp only: composeQuery_def Let_def applyOrderBy_closed ws(1))
  then show ?thesis
    by (simp add: applyGroupBy_closed applyPreload_closed orders_append orders_map_Preload ws(2))
qed

lemma composeQuery_last:
  "last (composeQuery query opts db) =
     Order (if Get query ''order'' \<noteq> [] then Get query ''order''
            else if OrderBy opts \<noteq> [] then OrderBy opts
            else ''created_at desc'')"
  by (simp add: composeQuery_def Let_def applyOrderBy_closed)

lemma composeQuery_append: "composeQuery query opts db = db @ composeQuery query opts []"
proof -
  obtain ws where a: "applySearch query opts (applyPreload query opts db)
      = applyPreload query opts db @ ws"
    using applySearch_closed by blast
  obtain ws' where b: "applySearch query opts (applyPreload query opts [])
      = applyPreload query opts [] @ ws'"
    using applySearch_closed by blast
  have "ws = ws'"
    using a b by (auto simp: applySearch_def Let_def split: if_splits list.splits)
  have l: "composeQuery query opts db = applyGroupBy query opts (applyPreload query opts db @ ws)
      @ applyOrderBy query opts []"
    by (simp only: composeQuery_def Let_def a) (simp add: applyOrderBy_closed)
  have r: "composeQuery query opts [] = applyGroupBy query opts (applyPreload query opts [] @ ws')
      @ applyOrderBy query opts []"
    by (simp only: composeQuery_def Let_def b) (simp add: applyOrderBy_closed)
  show ?thesis
    unfolding l r \<open>ws = ws'\<close>
    by (simp add: applyGroupBy_closed applyPreload_closed)
qed

section \<open>The outcomes of ReadPaginated\<close>

lemma resolvePage_pos: "1 \<le>s resolvePage query opts"
  by (auto simp: resolvePage_def Let_def word_sle_eq word_sless_alt split: option.splits)

lemma resolvePageSize_pos: "1 \<le>s resolvePageSize query opts"
  by (auto simp: resolvePageSize_def Let_def word_sle_eq word_sless_alt split: option.splits)

lemma resolvePageSize_nonzero: "resolvePageSize query opts \<noteq> 0"
  using resolvePageSize_pos [of query opts] by (auto simp: word_sle_eq)

lemma resolvePage_default:
  assumes "Atoi (Get query ''page'') = None \<or> (\<exists>n. Atoi (Get query ''page'') = Some n \<and> n \<le>s 0)"
  shows "resolvePage query opts = (if DefaultPage opts \<le>s 0 then 1 else DefaultPage opts)"
  using assms by (auto simp: resolvePage_def Let_def word_sle_eq word_sless_alt)

lemma resolvePageSize_default:
  assumes "Atoi (Get query ''pageSize'') = None \<or> (\<exists>n. Atoi (Get query ''pageSize'') = Some n \<and> n \<le>s 0)"
  shows "resolvePageSize query opts = (if DefaultPageSize opts \<le>s 0 then 10 else DefaultPageSize opts)"
  using assms by (auto simp: resolvePageSize_def Let_def word_sle_eq word_sless_alt)

lemma PaginateGeneric_no_panic: "ps \<noteq> 0 \<Longrightarrow> PaginateGeneric env db pg ps \<noteq> Panic p"
  by (simp add: PaginateGeneric_def Let_def split: sum.splits)

lemma PaginateGeneric_error:
  "PaginateGeneric env db pg ps = Ret (Inl msg) \<Longrightarrow>
     db_Count env db = Inl msg \<or> db_Find env (db @ [Limit ps, Offset ((pg - 1) * ps)]) = Inl msg"
  by (auto simp: PaginateGeneric_def Let_def split: sum.splits if_splits)

lemma PaginateGeneric_rows:
  "PaginateGeneric env db pg ps = Ret (Inr (rows, m)) \<Longrightarrow> page m = pg \<and> pageSize m = ps"
  by (auto simp: PaginateGeneric_def paginationMeta_def Let_def split: sum.splits if_splits)

lemma ReadPaginated_store: "fst (ReadPaginated env h query db opts) = fst (mergeDefaults h opts)"
  by (cases "mergeDefaults h opts")
    (auto simp: ReadPaginated_def Let_def split: prod.splits go.splits sum.splits)

text \<open>The store after a call: with \<open>nil\<close> for \<open>DefaultFieldTypes\<close> it is the store before
  the call, and with a map it holds the merged map at the address of the caller's map.\<close>

lemma ReadPaginated_nil_types_store:
  "DefaultFieldTypes opts = None \<Longrightarrow> fst (ReadPaginated env h query db opts) = h"
  by (simp add: ReadPaginated_store mergeDefaults_def)

lemma ReadPaginated_given_types_store:
  "DefaultFieldTypes opts = Some a \<Longrightarrow>
     fst (ReadPaginated env h query db opts) = h(a := mergeInto defaultAllowed (h a))"
  by (simp add: ReadPaginated_store mergeDefaults_def)

lemma ReadPaginated_invalid:
  assumes "filterLoop env (snd (mergeDefaults h opts)) query (db, False) = Ret (db1, True)"
  shows "ReadPaginated env h query db opts =
     (fst (mergeDefaults h opts),
      Ret (\<lparr>Data = Some [], Meta = Some Map.empty\<rparr>, Some ErrInvalidFilter))"
proof -
  obtain h' ft where "mergeDefaults h opts = (h', ft)"
    by (cases "mergeDefaults h opts")
  with assms show ?thesis
    by (simp add: ReadPaginated_def Let_def split: go.splits sum.splits)
qed

lemma ReadPaginated_panic:
  assumes "filterLoop env (snd (mergeDefaults h opts)) query (db, False) = Panic p"
  shows "ReadPaginated env h query db opts = (fst (mergeDefaults h opts), Panic p)"
proof -
  obtain h' ft where "mergeDefaults h opts = (h', ft)"
    by (cases "mergeDefaults h opts")
  with assms show ?thesis
    by (simp add: ReadPaginated_def Let_def split: go.splits sum.splits)
qed

lemma ReadPaginated_valid:
  assumes "filterLoop env (snd (mergeDefaults h opts)) query (db, False) = Ret (db1, False)"
  shows "ReadPaginated env h query db opts =
     (fst (mergeDefaults h opts),
      case PaginateGeneric env (composeQuery query opts db1)
             (resolvePage query opts) (resolvePageSize query opts) of
        Panic p \<Rightarrow> Panic p
      | Ret (Inl err) \<Rightarrow> Ret (\<lparr>Data = None, Meta = None\<rparr>, Some (QueryExecutionError err))
      | Ret (Inr (rows, pagi)) \<Rightarrow>
          Ret (\<lparr>Data = Some rows, Meta = Some [''pagination'' \<mapsto> pagi]\<rparr>, None))"
proof -
  obtain h' ft where "mergeDefaults h opts = (h', ft)"
    by (cases "mergeDefaults h opts")
  with assms show ?thesis
    by (simp add: ReadPaginated_def Let_def split: go.splits sum.splits)
qed

lemma ReadPaginated_cases:
  obtains (panic) p where "filterLoop env (snd (mergeDefaults h opts)) query (db, False) = Panic p"
      "snd (ReadPaginated env h query db opts) = Panic p"
  | (invalid) db1 where "filterLoop env (snd (mergeDefaults h opts)) query (db, False) = Ret (db1, True)"
      "snd (ReadPaginated env h query db opts)
         = Ret (\<lparr>Data = Some [], Meta = Some Map.empty\<rparr>, Some ErrInvalidFilter)"
  | (failed) db1 msg where "filterLoop env (snd (mergeDefaults h opts)) query (db, False) = Ret (db1, False)"
      "PaginateGeneric env (composeQuery query opts db1)
         (resolvePage query opts) (resolvePageSize query opts) = Ret (Inl msg)"
      "snd (ReadPaginated env h query db opts)
         = Ret (\<lparr>Data = None, Meta = None\<rparr>, Some (QueryExecutionError msg))"
  | (paged) db1 rows m where "filterLoop env (snd (mergeDefaults h opts)) query (db, False) = Ret (db1, False)"
      "PaginateGeneric env (composeQuery query opts db1)
         (resolvePage query opts) (resolvePageSize query opts) = Ret (Inr (rows, m))"
      "snd (ReadPaginated env h query db opts)
         = Ret (\<lparr>Data = Some rows, Meta = Some [''pagination'' \<mapsto> m]\<rparr>, None)"
proof (cases "filterLoop env (snd (mergeDefaults h opts)) query (db, False)")
  case (Panic p)
  then show ?thesis using panic by (simp add: ReadPaginated_panic)
next
  case (Ret st)
  obtain db1 flag where st: "st = (db1, flag)" by (cases st)
  show ?thesis
  proof (cases flag)
    case True
    with Ret st have l: "filterLoop env (snd (mergeDefaults h opts)) query (db, False) = Ret (db1, True)"
      by simp
    then show ?thesis using invalid by (simp add: ReadPaginated_invalid)
  next
    case False
    with Ret st have l: "filterLoop env (snd (mergeDefaults h opts)) query (db, False) = Ret (db1, False)"
      by simp
    have np: "PaginateGeneric env (composeQuery query opts db1)
         (resolvePage query opts) (resolvePageSize query opts) \<noteq> Panic p" for p
      by (rule PaginateGeneric_no_panic [OF resolvePageSize_nonzero])
    show ?thesis
    proof (cases "PaginateGeneric env (composeQuery query opts db1)
         (resolvePage query opts) (resolvePageSize query opts)")
      case (Panic p)
      with np [of p] show ?thesis by simp
    next
      case r: (Ret res)
      show ?thesis
      proof (cases res)
        case (Inl msg)
        with r l show ?thesis using failed by (simp add: ReadPaginated_valid)
      next
        case (Inr pr)
        obtain rows m where "pr = (rows, m)" by (cases pr)
        with Inr r l show ?thesis using paged by (simp add: ReadPaginated_valid)
      qed
    qed
  qed
qed

section \<open>Invalid filter values\<close>

text \<open>
  Claim C1 says that every raw parameter set in which a filter value, or a
  comma-separated part of one, fails coercion for its declared \<open>int\<close> or \<open>uuid\<close> type
  gets the invalid-filter error with an empty result, whatever else the request holds.
  The code does not do that when another filter key of the same request holds no value:
  the loop reads \<open>vals[0]\<close> on line 90 without a look at the length, and the call
  panics. Here the value \<open>abc\<close> of \<open>filter[jumlah]\<close> fails coercion for the type \<open>int\<close>, the
  key \<open>filter[status]\<close> has an empty value list, and the call ends in an index out of
  range instead of the invalid-filter error, in either order of the loop.
\<close>

theorem invalid_filter_panics_on_empty_values:
  "(''filter[jumlah]'', [''abc'']) \<in> set [(''filter[jumlah]'', [''abc'']), (''filter[status]'', [])]
   \<and> fieldTypeOf (snd (mergeDefaults emptyStore zeroOptions)) ''jumlah'' = ''int''
   \<and> Atoi ''abc'' = None
   \<and> ReadPaginated (sampleEnv 7 [()]) emptyStore
        [(''filter[jumlah]'', [''abc'']), (''filter[status]'', [])] [] zeroOptions
       = (emptyStore, Panic IndexOutOfRange)
   \<and> ReadPaginated (sampleEnv 7 [()]) emptyStore
        [(''filter[status]'', []), (''filter[jumlah]'', [''abc''])] [] zeroOptions
       = (emptyStore, Panic IndexOutOfRange)"
proof -
  have k: "HasPrefix ''filter[status]'' ''filter[''" "HasSuffix ''filter[status]'' '']''"
    "filterField ''filter[status]'' \<noteq> []"
    by (simp_all add: HasPrefix_def HasSuffix_def filterField_def)
  have "filterLoop (sampleEnv 7 [()]) (snd (mergeDefaults emptyStore zeroOptions))
      [(''filter[jumlah]'', [''abc'']), (''filter[status]'', [])] ([], False) = Panic IndexOutOfRange"
    by (rule filterLoop_empty_values [OF _ k]) simp
  from ReadPaginated_panic [OF this]
  have a: "ReadPaginated (sampleEnv 7 [()]) emptyStore
        [(''filter[jumlah]'', [''abc'']), (''filter[status]'', [])] [] zeroOptions
       = (emptyStore, Panic IndexOutOfRange)"
    by (simp only: zero_store)
  have "filterLoop (sampleEnv 7 [()]) (snd (mergeDefaults emptyStore zeroOptions))
      [(''filter[status]'', []), (''filter[jumlah]'', [''abc''])] ([], False) = Panic IndexOutOfRange"
    by (rule filterLoop_empty_values [OF _ k]) simp
  from ReadPaginated_panic [OF this]
  have b: "ReadPaginated (sampleEnv 7 [()]) emptyStore
        [(''filter[status]'', []), (''filter[jumlah]'', [''abc''])] [] zeroOptions
       = (emptyStore, Panic IndexOutOfRange)"
    by (simp only: zero_store)
  show ?thesis using a b by (simp add: zero_fieldTypes Atoi_samples)
qed

text \<open>
  Where every filter key with a field name has at least one value, the code does what
  the claim says: one part that fails coercion, in the first value of one filter key, is
  enough for the invalid-filter error with an empty \<open>Data\<close> slice and an empty \<open>Meta\<close>
  map, whatever the other parts and filters are and whatever the database would answer.
\<close>

lemma invalid_filter_fails_closed:
  assumes wf: "\<forall>(k, vs)\<in>set query.
        HasPrefix k ''filter['' \<and> HasSuffix k '']'' \<and> filterField k \<noteq> [] \<longrightarrow> vs \<noteq> []"
    and mem: "(''filter['' @ field @ '']'', val # rest) \<in> set query"
    and f: "field \<noteq> []"
    and v: "v \<in> set (if Contains val CHR '','' then map TrimSpace (Split val CHR '','') else [val])"
    and bad: "fieldTypeOf (snd (mergeDefaults h opts)) field = ''int'' \<and> Atoi v = None
         \<or> fieldTypeOf (snd (mergeDefaults h opts)) field = ''uuid'' \<and> \<not> uuid_Parse env v"
  shows "ReadPaginated (env\<lparr>db_Count := cnt, db_Find := fnd\<rparr>) h query db opts =
     (fst (mergeDefaults h opts),
      Ret (\<lparr>Data = Some [], Meta = Some Map.empty\<rparr>, Some ErrInvalidFilter))"
proof -
  let ?k = "''filter['' @ field @ '']''"
  have k: "HasPrefix ?k ''filter[''" "HasSuffix ?k '']''" "filterField ?k \<noteq> []"
    using f by (simp_all only: filter_key_recognised not_False_eq_True)
  have bad': "fieldTypeOf (snd (mergeDefaults h opts)) (filterField ?k) = ''int'' \<and> Atoi v = None
         \<or> fieldTypeOf (snd (mergeDefaults h opts)) (filterField ?k) = ''uuid'' \<and> \<not> uuid_Parse env v"
    using bad by (simp only: filter_key_recognised)
  obtain db1 where "filterLoop env (snd (mergeDefaults h opts)) query (db, False) = Ret (db1, True)"
    using filterLoop_sets_flag [OF wf mem k v bad'] by blast
  then have "filterLoop (env\<lparr>db_Count := cnt, db_Find := fnd\<rparr>) (snd (mergeDefaults h opts))
      query (db, False) = Ret (db1, True)"
    by (simp only: filterLoop_uuid_free)
  then show ?thesis by (rule ReadPaginated_invalid)
qed

text \<open>A valid filter on \<open>status\<close> and a list for \<open>jumlah\<close> with one bad part between two
  good ones.\<close>

lemma invalid_filter_fails_closed_witness:
  "(''filter['' @ ''jumlah'' @ '']'', ''1, x, 3'' # [])
        \<in> set [(''filter[status]'', [''active'']), (''filter[jumlah]'', [''1, x, 3''])]
   \<and> ''x'' \<in> set (if Contains ''1, x, 3'' CHR '','' then map TrimSpace (Split ''1, x, 3'' CHR '','')
                   else [''1, x, 3''])
   \<and> fieldTypeOf (snd (mergeDefaults emptyStore zeroOptions)) ''jumlah'' = ''int'' \<and> Atoi ''x'' = None
   \<and> ReadPaginated (sampleEnv 7 [()]) emptyStore
        [(''filter[status]'', [''active'']), (''filter[jumlah]'', [''1, x, 3''])] [] zeroOptions =
       (emptyStore, Ret (\<lparr>Data = Some [], Meta = Some Map.empty\<rparr>, Some ErrInvalidFilter))"
proof -
  let ?q = "[(''filter[status]'', [''active'']), (''filter[jumlah]'', [''1, x, 3''])]"
  have wf: "\<forall>(k, vs)\<in>set ?q.
       HasPrefix k ''filter['' \<and> HasSuffix k '']'' \<and> filterField k \<noteq> [] \<longrightarrow> vs \<noteq> []"
    by simp
  have mem: "(''filter['' @ ''jumlah'' @ '']'', ''1, x, 3'' # []) \<in> set ?q" by simp
  have f: "''jumlah'' \<noteq> []" by simp
  have v: "''x'' \<in> set (if Contains ''1, x, 3'' CHR '','' then map TrimSpace (Split ''1, x, 3'' CHR '','')
                   else [''1, x, 3''])"
    by (simp only: parts_samples) (simp add: Contains_def)
  have bad: "fieldTypeOf (snd (mergeDefaults emptyStore zeroOptions)) ''jumlah'' = ''int'' \<and> Atoi ''x'' = None
      \<or> fieldTypeOf (snd (mergeDefaults emptyStore zeroOptions)) ''jumlah'' = ''uuid''
         \<and> \<not> uuid_Parse (sampleEnv 7 [()]) ''x''"
    by (simp add: zero_fieldTypes Atoi_samples)
  have e: "(sampleEnv 7 [()]) \<lparr>db_Count := (\<lambda>db. Inr 7), db_Find := (\<lambda>db. Inr [()])\<rparr> = sampleEnv 7 [()]"
    by (simp add: sampleEnv_def)
  have "ReadPaginated (sampleEnv 7 [()]) emptyStore ?q [] zeroOptions =
       (emptyStore, Ret (\<lparr>Data = Some [], Meta = Some Map.empty\<rparr>, Some ErrInvalidFilter))"
    using invalid_filter_fails_closed [OF wf mem f v bad,
        where cnt = "\<lambda>db. Inr 7" and fnd = "\<lambda>db. Inr [()]" and db = "[]"]
    unfolding e zero_store .
  with mem v show ?thesis
    by (simp only: zero_fieldTypes Atoi_samples simp_thms)
qed

section \<open>The caller's field-type map\<close>

text \<open>
  Claim C2 says that the merge of the built-in field types works on a copy for each
  call and leaves the caller's \<open>DefaultFieldTypes\<close> map unchanged. The code does not do
  that when the caller supplies a map: the struct is copied, the map behind it is
  not, and the loop on lines 76 to 80 writes the missing built-in types into the
  caller's own map. A caller whose map at address 0 declares only \<open>name\<close> finds \<open>jumlah\<close>
  declared as \<open>int\<close> in that same map after one call, on an empty query.
\<close>

theorem ReadPaginated_writes_caller_map:
  "(emptyStore(0 := [''name'' \<mapsto> ''string''])) 0 ''jumlah'' = None
   \<and> fst (ReadPaginated (sampleEnv 0 ([] :: unit list)) (emptyStore(0 := [''name'' \<mapsto> ''string'']))
         [] [] (zeroOptions\<lparr>DefaultFieldTypes := Some 0\<rparr>)) 0 ''jumlah'' = Some ''int''
   \<and> fst (ReadPaginated (sampleEnv 0 ([] :: unit list)) (emptyStore(0 := [''name'' \<mapsto> ''string'']))
         [] [] (zeroOptions\<lparr>DefaultFieldTypes := Some 0\<rparr>)) 0
       \<noteq> (emptyStore(0 := [''name'' \<mapsto> ''string''])) 0"
proof -
  let ?h = "emptyStore(0 := [''name'' \<mapsto> ''string''])"
  let ?o = "zeroOptions\<lparr>DefaultFieldTypes := Some 0\<rparr>"
  have a: "?h 0 ''jumlah'' = None" by simp
  have b: "fst (ReadPaginated (sampleEnv 0 ([] :: unit list)) ?h [] [] ?o) 0 ''jumlah'' = Some ''int''"
    by (simp add: ReadPaginated_store mergeDefaults_def zeroOptions_def defaultAllowed_def)
  from a b have "fst (ReadPaginated (sampleEnv 0 ([] :: unit list)) ?h [] [] ?o) 0 \<noteq> ?h 0"
    by (metis option.distinct(1))
  with a b show ?thesis by blast
qed

section \<open>Group by and the order that follows it\<close>

text \<open>
  Claim C3, as the code has it. For every request in which group-by is enabled and a
  non-empty \<open>groupby\<close> parameter is present, the group-by step requests the select of the
  group fields with the max-aggregate, the group clause and the order
  \<open>MAX(created_at) desc\<close>, and the order-by step still runs after it: exactly one more
  order clause follows the group clause, with the \<open>order\<close> parameter, else the configured
  default, else \<open>created_at desc\<close>. The max-aggregate order comes first in the request
  and the other one second; nothing is skipped in group mode.
\<close>

theorem composeQuery_group_order:
  assumes "AllowGroupBy opts" and "Get query ''groupby'' \<noteq> []"
  shows "composeQuery query opts db1 =
      applySearch query opts (applyPreload query opts db1)
      @ [Select (Join (map TrimSpace (Split (Get query ''groupby'') CHR '','')) '', ''
                 @ '', MAX(created_at) as created_at''),
         Group (Join (map TrimSpace (Split (Get query ''groupby'') CHR '','')) '', ''),
         Order ''MAX(created_at) desc'',
         Order (if Get query ''order'' \<noteq> [] then Get query ''order''
                else if OrderBy opts \<noteq> [] then OrderBy opts
                else ''created_at desc'')]"
  using assms by (simp add: composeQuery_def applyGroupBy_def applyOrderBy_def Let_def)

theorem composeQuery_group_order_witness:
  "AllowGroupBy (zeroOptions\<lparr>AllowGroupBy := True\<rparr>)
   \<and> Get [(''groupby'', [''category_id'']), (''order'', [''name asc''])] ''groupby'' \<noteq> []
   \<and> composeQuery [(''groupby'', [''category_id'']), (''order'', [''name asc''])]
        (zeroOptions\<lparr>AllowGroupBy := True\<rparr>) [] =
       [Select ''category_id, MAX(created_at) as created_at'', Group ''category_id'',
        Order ''MAX(created_at) desc'', Order ''name asc'']"
proof -
  have a: "AllowGroupBy (zeroOptions\<lparr>AllowGroupBy := True\<rparr>)" by simp
  have g: "Get [(''groupby'', [''category_id'']), (''order'', [''name asc''])] ''groupby'' \<noteq> []"
    by (simp add: Get_def)
  show ?thesis
    using composeQuery_group_order [OF a g, of "[]"] a g
    by (simp add: Get_def zeroOptions_def applySearch_def applyPreload_def
        TrimSpace_category_id Split_category_id)
qed

text \<open>
  With \<open>groupby=category_id\<close>, group-by enabled, no \<open>order\<close> parameter and no configured
  default, the request ends with the fixed default order clause, applied after the group
  clause and after the max-aggregate order.
\<close>

theorem composeQuery_group_order_counterexample:
  "AllowGroupBy (zeroOptions\<lparr>AllowGroupBy := True\<rparr>)
   \<and> Get [(''groupby'', [''category_id''])] ''groupby'' \<noteq> []
   \<and> Get [(''groupby'', [''category_id''])] ''order'' = []
   \<and> composeQuery [(''groupby'', [''category_id''])] (zeroOptions\<lparr>AllowGroupBy := True\<rparr>) [] =
       [Select ''category_id, MAX(created_at) as created_at'', Group ''category_id'',
        Order ''MAX(created_at) desc'', Order ''created_at desc'']"
  by (simp add: composeQuery_def applyGroupBy_def applyOrderBy_def applySearch_def
      applyPreload_def Get_def zeroOptions_def TrimSpace_category_id Split_category_id)

section \<open>Pagination metadata\<close>

text \<open>
  Claim C4, as the code has it. When the count and the fetch succeed, with
  \<open>total \<ge> 0\<close>, \<open>page \<ge> 1\<close> and \<open>pageSize \<ge> 1\<close>, \<open>PaginateGeneric\<close> returns the fetched rows
  and the metadata of lines 246 to 255. Provided \<open>total + pageSize - 1\<close> does not exceed
  the largest \<open>int64\<close>, \<open>pageCount\<close> is the exact ceiling of \<open>total / pageSize\<close>, \<open>hasNext\<close>
  is \<open>page < pageCount\<close> and \<open>hasPrev\<close> is \<open>page > 1\<close> and \<open>pageCount > 0\<close>. With
  \<open>total = 0\<close> this gives \<open>pageCount = 0\<close> and both flags false for every page, and
  \<open>total = 48\<close>, \<open>page = 1\<close>, \<open>pageSize = 10\<close> give \<open>pageCount = 5\<close>, \<open>hasNext\<close> true and
  \<open>hasPrev\<close> false.
\<close>

theorem PaginateGeneric_pagination:
  assumes cnt: "db_Count env db = Inr tot"
    and fnd: "db_Find env (db @ [Limit ps, Offset ((pg - 1) * ps)]) = Inr out"
    and tot: "0 \<le>s tot" and pg: "1 \<le>s pg" and ps: "1 \<le>s ps"
  shows "PaginateGeneric env db pg ps = Ret (Inr (out, paginationMeta tot pg ps))
    \<and> (sint tot + sint ps - 1 < 2 ^ 63 \<longrightarrow>
         sint (pageCount (paginationMeta tot pg ps)) = \<lceil>real_of_int (sint tot) / real_of_int (sint ps)\<rceil>
       \<and> hasNext (paginationMeta tot pg ps) = (sint pg < \<lceil>real_of_int (sint tot) / real_of_int (sint ps)\<rceil>)
       \<and> hasPrev (paginationMeta tot pg ps) =
           (1 < sint pg \<and> 0 < \<lceil>real_of_int (sint tot) / real_of_int (sint ps)\<rceil>))
    \<and> (tot = 0 \<longrightarrow>
         pageCount (paginationMeta tot pg ps) = 0
       \<and> \<not> hasNext (paginationMeta tot pg ps) \<and> \<not> hasPrev (paginationMeta tot pg ps))
    \<and> paginationMeta 48 1 10 =
         \<lparr>page = 1, pageSize = 10, pageCount = 5, total = 48, hasNext = True, hasPrev = False\<rparr>"
proof -
  have t0: "0 \<le> sint tot" and p1: "1 \<le> sint ps"
    using tot ps by (simp_all add: word_sle_eq)
  have nz: "ps \<noteq> 0" using p1 by auto
  have run: "PaginateGeneric env db pg ps = Ret (Inr (out, paginationMeta tot pg ps))"
    using cnt fnd nz by (simp add: PaginateGeneric_def)
  have general: "sint (pageCount (paginationMeta tot pg ps)) = \<lceil>real_of_int (sint tot) / real_of_int (sint ps)\<rceil>
       \<and> hasNext (paginationMeta tot pg ps) = (sint pg < \<lceil>real_of_int (sint tot) / real_of_int (sint ps)\<rceil>)
       \<and> hasPrev (paginationMeta tot pg ps) =
           (1 < sint pg \<and> 0 < \<lceil>real_of_int (sint tot) / real_of_int (sint ps)\<rceil>)"
    if fit: "sint tot + sint ps - 1 < 2 ^ 63"
  proof -
    have s: "sint (tot + ps - 1) = sint tot + sint ps - 1"
      using t0 p1 fit by (rule sint_sum_pred)
    have "0 \<le> sint (tot + ps - 1)" using s t0 p1 by simp
    then have "sint (quo64 (tot + ps - 1) ps) = sint (tot + ps - 1) div sint ps"
      using p1 by (intro quo64_nonneg) auto
    also have "\<dots> = \<lceil>real_of_int (sint tot) / real_of_int (sint ps)\<rceil>"
      unfolding s using p1 by (intro ceil_div_int) auto
    finally have c: "sint (quo64 (tot + ps - 1) ps) = \<lceil>real_of_int (sint tot) / real_of_int (sint ps)\<rceil>" .
    show ?thesis
      using c by (simp add: paginationMeta_def Let_def word_sless_alt)
  qed
  have zero: "pageCount (paginationMeta tot pg ps) = 0
       \<and> \<not> hasNext (paginationMeta tot pg ps) \<and> \<not> hasPrev (paginationMeta tot pg ps)"
    if z: "tot = 0"
  proof -
    have "sint ps < 2 ^ 63" using sint_lt [of ps] by simp
    then have fit: "sint tot + sint ps - 1 < 2 ^ 63" using z by simp
    have "sint (pageCount (paginationMeta tot pg ps)) = 0"
      using general [OF fit] z by simp
    then have pc: "pageCount (paginationMeta tot pg ps) = 0"
      by (simp add: signed_eq_0_iff)
    have "1 \<le> sint pg" using pg by (simp add: word_sle_eq)
    then show ?thesis using pc general [OF fit] z by simp
  qed
  have ex: "paginationMeta 48 1 10 =
         \<lparr>page = 1, pageSize = 10, pageCount = 5, total = 48, hasNext = True, hasPrev = False\<rparr>"
    by code_simp
  show ?thesis using run general zero ex by blast
qed

text \<open>The last page of 48 rows in pages of 10: page 5 of 5, no next page, a previous one.\<close>

theorem PaginateGeneric_pagination_witness:
  "db_Count (sampleEnv 48 [()]) [] = Inr 48
   \<and> db_Find (sampleEnv 48 [()]) ([] @ [Limit 10, Offset ((5 - 1) * 10)]) = Inr [()]
   \<and> 0 \<le>s (48 :: int64) \<and> 1 \<le>s (5 :: int64) \<and> 1 \<le>s (10 :: int64)
   \<and> sint (48 :: int64) + sint (10 :: int64) - 1 < 2 ^ 63
   \<and> PaginateGeneric (sampleEnv 48 [()]) [] 5 10 = Ret (Inr ([()], paginationMeta 48 5 10))
   \<and> sint (pageCount (paginationMeta 48 5 10)) = 5
   \<and> \<not> hasNext (paginationMeta 48 5 10) \<and> hasPrev (paginationMeta 48 5 10)"
proof -
  have h: "db_Count (sampleEnv 48 [()]) [] = Inr 48"
    "db_Find (sampleEnv 48 [()]) ([] @ [Limit 10, Offset ((5 - 1) * 10)]) = Inr [()]"
    "0 \<le>s (48 :: int64)" "1 \<le>s (5 :: int64)" "1 \<le>s (10 :: int64)"
    by (simp_all add: sampleEnv_simps word_sle_eq)
  have f: "sint (48 :: int64) + sint (10 :: int64) - 1 < 2 ^ 63" by simp
  have c: "\<lceil>real_of_int (sint (48 :: int64)) / real_of_int (sint (10 :: int64))\<rceil> = 5"
    by (simp add: ceiling_eq_iff)
  show ?thesis
    using PaginateGeneric_pagination [OF h] h f c by simp
qed

text \<open>
  Without the bound the sum wraps around. With \<open>pageSize = 9223372036854775807\<close>, which
  \<open>Atoi\<close> accepts, and two rows, \<open>total + pageSize - 1\<close> is \<open>2^63\<close> and wraps to \<open>-2^63\<close>;
  the quotient is \<open>-1\<close>, where the ceiling of \<open>total / pageSize\<close> is 1. The request
  \<open>?pageSize=9223372036854775807\<close> reaches this through \<open>ReadPaginated\<close>.
\<close>

theorem PaginateGeneric_pagination_counterexample:
  "0 \<le>s (2 :: int64) \<and> 1 \<le>s (1 :: int64) \<and> 1 \<le>s (9223372036854775807 :: int64)
   \<and> PaginateGeneric (sampleEnv 2 [(), ()]) [] 1 9223372036854775807 =
       Ret (Inr ([(), ()],
         \<lparr>page = 1, pageSize = 9223372036854775807, pageCount = - 1, total = 2,
          hasNext = False, hasPrev = False\<rparr>))
   \<and> \<lceil>real_of_int (sint (2 :: int64)) / real_of_int (sint (9223372036854775807 :: int64))\<rceil> = 1
   \<and> snd (ReadPaginated (sampleEnv 2 [(), ()]) emptyStore
        [(''pageSize'', [''9223372036854775807''])] [] zeroOptions) =
       Ret (\<lparr>Data = Some [(), ()],
             Meta = Some [''pagination'' \<mapsto>
               \<lparr>page = 1, pageSize = 9223372036854775807, pageCount = - 1, total = 2,
                hasNext = False, hasPrev = False\<rparr>]\<rparr>, None)"
proof -
  let ?q = "[(''pageSize'', [''9223372036854775807''])]"
  have m: "paginationMeta 2 1 9223372036854775807 =
      \<lparr>page = 1, pageSize = 9223372036854775807, pageCount = - 1, total = 2,
       hasNext = False, hasPrev = False\<rparr>"
    by code_simp
  have c: "\<lceil>real_of_int (sint (2 :: int64)) / real_of_int (sint (9223372036854775807 :: int64))\<rceil> = 1"
    by (simp add: ceiling_eq_iff)
  have r: "PaginateGeneric (sampleEnv 2 [(), ()]) db 1 9223372036854775807 =
       Ret (Inr ([(), ()], paginationMeta 2 1 9223372036854775807))" for db
    by (simp add: PaginateGeneric_def sampleEnv_simps)
  have g: "Get ?q ''pageSize'' = ''9223372036854775807''" "Get ?q ''page'' = []"
    by (simp_all add: Get_def)
  have pg: "resolvePage ?q zeroOptions = 1"
    by (simp add: resolvePage_def g zeroOptions_def)
  have ps: "resolvePageSize ?q zeroOptions = 9223372036854775807"
    by (simp add: resolvePageSize_def g Atoi_max zeroOptions_def word_sless_alt)
  have "filterLoop (sampleEnv 2 [(), ()]) (snd (mergeDefaults emptyStore zeroOptions)) ?q ([], False)
      = Ret ([], False)"
    by (simp add: filterEntry_def HasPrefix_def)
  then have e: "snd (ReadPaginated (sampleEnv 2 [(), ()]) emptyStore ?q [] zeroOptions) =
       Ret (\<lparr>Data = Some [(), ()],
             Meta = Some [''pagination'' \<mapsto> paginationMeta 2 1 9223372036854775807]\<rparr>, None)"
    by (simp add: ReadPaginated_valid pg ps r)
  show ?thesis using m c r [of "[]"] e by (simp add: word_sle_eq)
qed

section \<open>The conditions that a valid filter emits\<close>

text \<open>
  One run of the loop body on an entry \<open>filter[<field>]\<close> with a field name: a valid
  comma-free first value appends one Equals condition with that value, coerced (the
  integer for \<open>int\<close>, the string itself otherwise), and a comma-separated value whose
  trimmed parts are all valid appends one In condition with all the coerced parts in
  their order. The flag is left as it was.
\<close>

lemma filterEntry_conditions:
  assumes f: "field \<noteq> []"
  shows
   "(\<not> Contains val CHR '','' \<and> fieldTypeOf ft field = ''int'' \<and> Atoi val = Some iv \<longrightarrow>
       filterEntry env ft (''filter['' @ field @ '']'', val # rest) (db, flag)
         = Ret (db @ [Where (field @ '' = ?'') (ArgInt iv)], flag))
    \<and> (\<not> Contains val CHR '','' \<and> fieldTypeOf ft field = ''uuid'' \<and> uuid_Parse env val \<longrightarrow>
       filterEntry env ft (''filter['' @ field @ '']'', val # rest) (db, flag)
         = Ret (db @ [Where (field @ '' = ?'') (ArgString val)], flag))
    \<and> (\<not> Contains val CHR '','' \<and> fieldTypeOf ft field \<noteq> ''int'' \<and> fieldTypeOf ft field \<noteq> ''uuid'' \<longrightarrow>
       filterEntry env ft (''filter['' @ field @ '']'', val # rest) (db, flag)
         = Ret (db @ [Where (field @ '' = ?'') (ArgString val)], flag))
    \<and> (Contains val CHR '','' \<and> fieldTypeOf ft field = ''int''
        \<and> map Atoi (map TrimSpace (Split val CHR '','')) = map Some ivs \<longrightarrow>
       filterEntry env ft (''filter['' @ field @ '']'', val # rest) (db, flag)
         = Ret (db @ [Where (field @ '' IN ?'') (ArgInts ivs)], flag))
    \<and> (Contains val CHR '','' \<and> fieldTypeOf ft field = ''uuid''
        \<and> list_all (uuid_Parse env) (map TrimSpace (Split val CHR '','')) \<longrightarrow>
       filterEntry env ft (''filter['' @ field @ '']'', val # rest) (db, flag)
         = Ret (db @ [Where (field @ '' IN ?'') (ArgStrings (map TrimSpace (Split val CHR '','')))],
                flag))
    \<and> (Contains val CHR '','' \<and> fieldTypeOf ft field \<noteq> ''int'' \<and> fieldTypeOf ft field \<noteq> ''uuid'' \<longrightarrow>
       filterEntry env ft (''filter['' @ field @ '']'', val # rest) (db, flag)
         = Ret (db @ [Where (field @ '' IN ?'') (ArgStrings (map TrimSpace (Split val CHR '','')))],
                flag))"
proof -
  let ?k = "''filter['' @ field @ '']''"
  let ?parts = "map TrimSpace (Split val CHR '','')"
  have k: "HasPrefix ?k ''filter[''" "HasSuffix ?k '']''" "filterField ?k \<noteq> []"
    using f by (simp_all only: filter_key_recognised not_False_eq_True)
  have fk: "filterField ?k = field" by (rule filter_key_recognised)
  note E = filterEntry_filter_key [OF k, of env ft val rest db flag, unfolded fk]
  have ne: "Split val CHR '','' \<noteq> []" by (cases val) (auto split: list.splits)
  have i: "List.map_filter Atoi ?parts = ivs \<and> ivs \<noteq> [] \<and> \<not> (\<exists>p\<in>set ?parts. Atoi p = None)"
    if m: "map Atoi ?parts = map Some ivs"
  proof -
    have "List.map_filter Atoi ?parts = ivs" using m by (rule map_filter_all_Some)
    moreover have "ivs \<noteq> []" using m ne by auto
    moreover have "\<not> (\<exists>p\<in>set ?parts. Atoi p = None)"
    proof
      assume "\<exists>p\<in>set ?parts. Atoi p = None"
      then have "None \<in> set (map Atoi ?parts)" by force
      with m show False by auto
    qed
    ultimately show ?thesis by blast
  qed
  have u: "filter (uuid_Parse env) ?parts = ?parts \<and> ?parts \<noteq> []
      \<and> \<not> (\<exists>p\<in>set ?parts. \<not> uuid_Parse env p)"
    if a: "list_all (uuid_Parse env) ?parts"
    using a ne by (auto simp: list_all_iff)
  show ?thesis
  proof (intro conjI impI; elim conjE)
    assume "\<not> Contains val CHR '',''" "fieldTypeOf ft field = ''int''" "Atoi val = Some iv"
    then show "filterEntry env ft (?k, val # rest) (db, flag)
         = Ret (db @ [Where (field @ '' = ?'') (ArgInt iv)], flag)"
      unfolding E by simp
  next
    assume "\<not> Contains val CHR '',''" "fieldTypeOf ft field = ''uuid''" "uuid_Parse env val"
    then show "filterEntry env ft (?k, val # rest) (db, flag)
         = Ret (db @ [Where (field @ '' = ?'') (ArgString val)], flag)"
      unfolding E by simp
  next
    assume "\<not> Contains val CHR '',''" "fieldTypeOf ft field \<noteq> ''int''" "fieldTypeOf ft field \<noteq> ''uuid''"
    then show "filterEntry env ft (?k, val # rest) (db, flag)
         = Ret (db @ [Where (field @ '' = ?'') (ArgString val)], flag)"
      unfolding E by simp
  next
    assume c: "Contains val CHR '',''" "fieldTypeOf ft field = ''int''"
      and m: "map Atoi ?parts = map Some ivs"
    from i [OF m] c show "filterEntry env ft (?k, val # rest) (db, flag)
         = Ret (db @ [Where (field @ '' IN ?'') (ArgInts ivs)], flag)"
      unfolding E by (auto simp del: map_map set_map)
  next
    assume c: "Contains val CHR '',''" "fieldTypeOf ft field = ''uuid''"
      and a: "list_all (uuid_Parse env) ?parts"
    from u [OF a] c show "filterEntry env ft (?k, val # rest) (db, flag)
         = Ret (db @ [Where (field @ '' IN ?'') (ArgStrings ?parts)], flag)"
      unfolding E by (auto simp del: map_map set_map)
  next
    assume "Contains val CHR '',''" "fieldTypeOf ft field \<noteq> ''int''" "fieldTypeOf ft field \<noteq> ''uuid''"
    then show "filterEntry env ft (?k, val # rest) (db, flag)
         = Ret (db @ [Where (field @ '' IN ?'') (ArgStrings ?parts)], flag)"
      unfolding E by simp
  qed
qed

text \<open>
  Claim C5. Take a request in which every entry \<open>filter[<field>]\<close> with a field name has
  a first value that is valid for the field's declared type, or whose trimmed
  comma-separated parts all are. Then the filter loop emits, for every such entry and in
  the order in which it visits the entries, the condition \<open>specCondition\<close>, and nothing
  else; \<open>ReadPaginated\<close> hands the caller's handle, extended by exactly these conditions
  and then by the clauses of the later steps, to the count and the fetch. The condition
  of an entry is an Equals condition \<open><field> = ?\<close> with exactly the one coerced value
  when the value has no comma (the integer for \<open>int\<close>, the string itself for \<open>uuid\<close> and
  for every other type), and an In condition \<open><field> IN ?\<close> with all the coerced parts
  in their original order when it has one.
\<close>

theorem ReadPaginated_filter_conditions:
  assumes valid: "\<forall>(k, vs)\<in>set query.
      HasPrefix k ''filter['' \<and> HasSuffix k '']'' \<and> filterField k \<noteq> [] \<longrightarrow>
      (\<exists>val rest. vs = val # rest
         \<and> list_all (validFor env (fieldTypeOf (snd (mergeDefaults h opts)) (filterField k)))
              (valueParts val))"
  shows "filterLoop env (snd (mergeDefaults h opts)) query (db, False)
       = Ret (db @ concat (map (specCondition (snd (mergeDefaults h opts))) query), False)
    \<and> ReadPaginated env h query db opts =
       (fst (mergeDefaults h opts),
        case PaginateGeneric env
               (db @ concat (map (specCondition (snd (mergeDefaults h opts))) query)
                @ composeQuery query opts [])
               (resolvePage query opts) (resolvePageSize query opts) of
          Panic p \<Rightarrow> Panic p
        | Ret (Inl err) \<Rightarrow> Ret (\<lparr>Data = None, Meta = None\<rparr>, Some (QueryExecutionError err))
        | Ret (Inr (rows, pagi)) \<Rightarrow>
            Ret (\<lparr>Data = Some rows, Meta = Some [''pagination'' \<mapsto> pagi]\<rparr>, None))
    \<and> (field \<noteq> [] \<and> \<not> Contains val CHR '','' \<and> fieldTypeOf ft field = ''int''
        \<and> Atoi val = Some iv \<longrightarrow>
         specCondition ft (''filter['' @ field @ '']'', val # rest)
           = [Where (field @ '' = ?'') (ArgInt iv)])
    \<and> (field \<noteq> [] \<and> \<not> Contains val CHR '','' \<and> fieldTypeOf ft field \<noteq> ''int'' \<longrightarrow>
         specCondition ft (''filter['' @ field @ '']'', val # rest)
           = [Where (field @ '' = ?'') (ArgString val)])
    \<and> (field \<noteq> [] \<and> Contains val CHR '','' \<and> fieldTypeOf ft field = ''int''
        \<and> map Atoi (map TrimSpace (Split val CHR '','')) = map Some ivs \<longrightarrow>
         specCondition ft (''filter['' @ field @ '']'', val # rest)
           = [Where (field @ '' IN ?'') (ArgInts ivs)])
    \<and> (field \<noteq> [] \<and> Contains val CHR '','' \<and> fieldTypeOf ft field \<noteq> ''int'' \<longrightarrow>
         specCondition ft (''filter['' @ field @ '']'', val # rest)
           = [Where (field @ '' IN ?'') (ArgStrings (map TrimSpace (Split val CHR '','')))])"
proof -
  let ?ft = "snd (mergeDefaults h opts)"
  let ?k = "''filter['' @ field @ '']''"
  have l: "filterLoop env ?ft query (db, False)
       = Ret (db @ concat (map (specCondition ?ft) query), False)"
    using valid by (rule filterLoop_valid)
  have r: "ReadPaginated env h query db opts =
       (fst (mergeDefaults h opts),
        case PaginateGeneric env
               (db @ concat (map (specCondition ?ft) query) @ composeQuery query opts [])
               (resolvePage query opts) (resolvePageSize query opts) of
          Panic p \<Rightarrow> Panic p
        | Ret (Inl err) \<Rightarrow> Ret (\<lparr>Data = None, Meta = None\<rparr>, Some (QueryExecutionError err))
        | Ret (Inr (rows, pagi)) \<Rightarrow>
            Ret (\<lparr>Data = Some rows, Meta = Some [''pagination'' \<mapsto> pagi]\<rparr>, None))"
    using ReadPaginated_valid [OF l]
      composeQuery_append [of query opts "db @ concat (map (specCondition ?ft) query)"]
    by simp
  have s: "specCondition ft (?k, val # rest) =
      (if Contains val CHR '','' then
         [Where (field @ '' IN ?'')
            (if fieldTypeOf ft field = ''int''
             then ArgInts (List.map_filter Atoi (map TrimSpace (Split val CHR '','')))
             else ArgStrings (map TrimSpace (Split val CHR '','')))]
       else
         [Where (field @ '' = ?'')
            (case (if fieldTypeOf ft field = ''int'' then Atoi val else None) of
               Some iv \<Rightarrow> ArgInt iv
             | None \<Rightarrow> ArgString val)])"
    if "field \<noteq> []"
  proof -
    have k: "HasPrefix ?k ''filter[''" "HasSuffix ?k '']''" "filterField ?k \<noteq> []"
      using that by (simp_all only: filter_key_recognised not_False_eq_True)
    show ?thesis
      using specCondition_filter_key [OF k, of ft val rest]
      by (simp only: filter_key_recognised)
  qed
  show ?thesis
  proof (intro conjI impI; (elim conjE)?)
    show "filterLoop env ?ft query (db, False)
       = Ret (db @ concat (map (specCondition ?ft) query), False)" by (rule l)
  next
    show "ReadPaginated env h query db opts =
       (fst (mergeDefaults h opts),
        case PaginateGeneric env
               (db @ concat (map (specCondition ?ft) query) @ composeQuery query opts [])
               (resolvePage query opts) (resolvePageSize query opts) of
          Panic p \<Rightarrow> Panic p
        | Ret (Inl err) \<Rightarrow> Ret (\<lparr>Data = None, Meta = None\<rparr>, Some (QueryExecutionError err))
        | Ret (Inr (rows, pagi)) \<Rightarrow>
            Ret (\<lparr>Data = Some rows, Meta = Some [''pagination'' \<mapsto> pagi]\<rparr>, None))"
      by (rule r)
  next
    assume f: "field \<noteq> []" and "\<not> Contains val CHR '',''" "fieldTypeOf ft field = ''int''"
      "Atoi val = Some iv"
    then show "specCondition ft (?k, val # rest) = [Where (field @ '' = ?'') (ArgInt iv)]"
      unfolding s [OF f] by simp
  next
    assume f: "field \<noteq> []" and "\<not> Contains val CHR '',''" "fieldTypeOf ft field \<noteq> ''int''"
    then show "specCondition ft (?k, val # rest) = [Where (field @ '' = ?'') (ArgString val)]"
      unfolding s [OF f] by simp
  next
    assume a: "field \<noteq> []" "Contains val CHR '',''" "fieldTypeOf ft field = ''int''"
      and m: "map Atoi (map TrimSpace (Split val CHR '','')) = map Some ivs"
    have "List.map_filter Atoi (map TrimSpace (Split val CHR '','')) = ivs"
      using m by (rule map_filter_all_Some)
    with a show "specCondition ft (?k, val # rest) = [Where (field @ '' IN ?'') (ArgInts ivs)]"
      unfolding s [OF a(1)] by simp
  next
    assume f: "field \<noteq> []" and "Contains val CHR '',''" "fieldTypeOf ft field \<noteq> ''int''"
    then show "specCondition ft (?k, val # rest)
        = [Where (field @ '' IN ?'') (ArgStrings (map TrimSpace (Split val CHR '','')))]"
      unfolding s [OF f] by simp
  qed
qed

text \<open>A list for the integer field \<open>jumlah\<close>, two values under the key of the string field
  \<open>status\<close>, of which the first counts, and a value for the UUID field \<open>id\<close>: the request
  that reaches the fetch.\<close>

theorem ReadPaginated_filter_conditions_witness:
  "ReadPaginated echoEnv emptyStore
     [(''filter[jumlah]'', [''1, 2,3'']), (''filter[status]'', [''active'', ''other'']),
      (''filter[id]'', [''123e4567-e89b-12d3-a456-426614174000''])] [] zeroOptions
   = (emptyStore,
      Ret (\<lparr>Data = Some [Where ''jumlah IN ?'' (ArgInts [1, 2, 3]),
                          Where ''status = ?'' (ArgString ''active''),
                          Where ''id = ?'' (ArgString ''123e4567-e89b-12d3-a456-426614174000''),
                          Order ''created_at desc'', Limit 10, Offset 0],
            Meta = Some [''pagination'' \<mapsto> paginationMeta 0 1 10]\<rparr>, None))"
proof -
  let ?q = "[(''filter[jumlah]'', [''1, 2,3'']), (''filter[status]'', [''active'', ''other'']),
      (''filter[id]'', [''123e4567-e89b-12d3-a456-426614174000''])]"
  have v: "\<forall>(k, vs)\<in>set ?q.
      HasPrefix k ''filter['' \<and> HasSuffix k '']'' \<and> filterField k \<noteq> [] \<longrightarrow>
      (\<exists>val rest. vs = val # rest
         \<and> list_all (validFor echoEnv (fieldTypeOf (snd (mergeDefaults emptyStore zeroOptions))
              (filterField k))) (valueParts val))"
    by (simp add: sample_filter_keys zero_fieldTypes sample_filters_valid)
  have c: "composeQuery ?q zeroOptions [] = [Order ''created_at desc'']"
    by (simp add: composeQuery_def applyPreload_def applySearch_def applyGroupBy_def
        applyOrderBy_def Get_def zeroOptions_def)
  have r: "resolvePage ?q zeroOptions = 1" "resolvePageSize ?q zeroOptions = 10"
    by (simp_all add: resolvePage_def resolvePageSize_def Get_def zeroOptions_def word_sless_alt)
  from ReadPaginated_filter_conditions [OF v, of "[]"]
  show ?thesis
    by (simp add: sample_conditions c r echo_run zero_store)
qed

section \<open>Preload\<close>

text \<open>
  Claim C6. A relation name is a non-empty string: of the comma-separated parts of the
  \<open>preload\<close> parameter, those that are empty after trimming name no relation and are
  passed over. Take a request whose filters are valid, so that it reaches the database.
  The handle that \<open>ReadPaginated\<close> hands to the count and the fetch preloads, after the
  relations that the caller's handle already preloads, exactly the trimmed
  comma-separated names of a non-empty \<open>preload\<close> parameter, in order, and none of the
  configured default list; when the parameter is absent (or empty) it preloads exactly
  the configured default list \<open>PreloadFields\<close>. No other step of the call adds a preload.
\<close>

theorem ReadPaginated_preloads:
  assumes fl: "filterLoop env (snd (mergeDefaults h opts)) query (db, False) = Ret (db1, False)"
  shows "ReadPaginated env h query db opts =
       (fst (mergeDefaults h opts),
        case PaginateGeneric env (composeQuery query opts db1)
               (resolvePage query opts) (resolvePageSize query opts) of
          Panic p \<Rightarrow> Panic p
        | Ret (Inl err) \<Rightarrow> Ret (\<lparr>Data = None, Meta = None\<rparr>, Some (QueryExecutionError err))
        | Ret (Inr (rows, pagi)) \<Rightarrow>
            Ret (\<lparr>Data = Some rows, Meta = Some [''pagination'' \<mapsto> pagi]\<rparr>, None))
    \<and> (Get query ''preload'' \<noteq> [] \<longrightarrow>
          preloads (composeQuery query opts db1) =
            preloads db @ filter (\<lambda>f. f \<noteq> [])
              (map TrimSpace (Split (Get query ''preload'') CHR '','')))
    \<and> (Get query ''preload'' = [] \<longrightarrow>
          preloads (composeQuery query opts db1) = preloads db @ PreloadFields opts)"
proof -
  from filterLoop_adds_Where [OF fl] have "preloads db1 = preloads db"
    by (auto simp: preloads_append)
  then show ?thesis
    using ReadPaginated_valid [OF fl] by (simp add: composeQuery_preloads)
qed

text \<open>\<open>preload=A, B\<close> against the default list \<open>{C}\<close>, and no \<open>preload\<close> parameter: the
  relations, and the request that reaches the fetch.\<close>

theorem ReadPaginated_preloads_witness:
  "Get [(''preload'', [''A, B''])] ''preload'' \<noteq> []
   \<and> preloads (composeQuery [(''preload'', [''A, B''])] (zeroOptions\<lparr>PreloadFields := [''C'']\<rparr>) [])
       = [''A'', ''B'']
   \<and> snd (ReadPaginated echoEnv emptyStore [(''preload'', [''A, B''])] []
        (zeroOptions\<lparr>PreloadFields := [''C'']\<rparr>))
       = Ret (\<lparr>Data = Some [Preload ''A'', Preload ''B'', Order ''created_at desc'',
                              Limit 10, Offset 0],
               Meta = Some [''pagination'' \<mapsto> paginationMeta 0 1 10]\<rparr>, None)
   \<and> Get [(''page'', [''1''])] ''preload'' = []
   \<and> preloads (composeQuery [(''page'', [''1''])] (zeroOptions\<lparr>PreloadFields := [''C'']\<rparr>) [])
       = [''C'']
   \<and> snd (ReadPaginated echoEnv emptyStore [(''page'', [''1''])] []
        (zeroOptions\<lparr>PreloadFields := [''C'']\<rparr>))
       = Ret (\<lparr>Data = Some [Preload ''C'', Order ''created_at desc'', Limit 10, Offset 0],
               Meta = Some [''pagination'' \<mapsto> paginationMeta 0 1 10]\<rparr>, None)"
proof -
  let ?o = "zeroOptions\<lparr>PreloadFields := [''C'']\<rparr>"
  let ?qa = "[(''preload'', [''A, B''])]"
  let ?qn = "[(''page'', [''1''])]"
  have g: "Get ?qa ''preload'' = ''A, B''" "Get ?qn ''preload'' = []"
    by (simp_all add: Get_def)
  have pa: "applyPreload ?qa ?o [] = [Preload ''A'', Preload ''B'']"
    by (simp only: applyPreload_closed g parts_samples) simp
  have pn: "applyPreload ?qn ?o [] = [Preload ''C'']"
    by (simp add: applyPreload_closed g zeroOptions_def)
  have ca: "composeQuery ?qa ?o [] = [Preload ''A'', Preload ''B'', Order ''created_at desc'']"
    by (simp only: composeQuery_def Let_def pa)
      (simp add: applySearch_def applyGroupBy_def applyOrderBy_def Get_def zeroOptions_def)
  have cn: "composeQuery ?qn ?o [] = [Preload ''C'', Order ''created_at desc'']"
    by (simp only: composeQuery_def Let_def pn)
      (simp add: applySearch_def applyGroupBy_def applyOrderBy_def Get_def zeroOptions_def)
  have r: "resolvePage ?qa ?o = 1" "resolvePageSize ?qa ?o = 10"
    "resolvePage ?qn ?o = 1" "resolvePageSize ?qn ?o = 10"
    by (simp_all add: resolvePage_def resolvePageSize_def Get_def zeroOptions_def Atoi_samples
        word_sless_alt)
  note Ta = ReadPaginated_preloads [of echoEnv emptyStore ?o ?qa "[]" "[]", OF no_filter_loop(1)]
  note Tn = ReadPaginated_preloads [of echoEnv emptyStore ?o ?qn "[]" "[]", OF no_filter_loop(2)]
  from Ta g have a1: "preloads (composeQuery ?qa ?o []) = [''A'', ''B'']"
    by (simp only: parts_samples) simp
  from Ta have a2: "snd (ReadPaginated echoEnv emptyStore ?qa [] ?o)
       = Ret (\<lparr>Data = Some [Preload ''A'', Preload ''B'', Order ''created_at desc'',
                              Limit 10, Offset 0],
               Meta = Some [''pagination'' \<mapsto> paginationMeta 0 1 10]\<rparr>, None)"
    by (simp add: ca r echo_run)
  from Tn g have n1: "preloads (composeQuery ?qn ?o []) = [''C'']"
    by (simp add: zeroOptions_def)
  from Tn have n2: "snd (ReadPaginated echoEnv emptyStore ?qn [] ?o)
       = Ret (\<lparr>Data = Some [Preload ''C'', Order ''created_at desc'', Limit 10, Offset 0],
               Meta = Some [''pagination'' \<mapsto> paginationMeta 0 1 10]\<rparr>, None)"
    by (simp add: cn r echo_run)
  show ?thesis using g a1 a2 n1 n2 by simp
qed

section \<open>Order by\<close>

text \<open>
  Claim C7, as the code has it. Take a request whose filters are valid, so that it
  reaches the database. The order-by step applies exactly one order expression, as the
  last clause of the request: the \<open>order\<close> query parameter when it is non-empty;
  otherwise the configured default \<open>OrderBy\<close> when that is non-empty; otherwise the fixed
  expression \<open>created_at desc\<close>. It is the only ordering that the call adds to the
  caller's handle unless group-by is enabled and a non-empty \<open>groupby\<close> parameter is
  present; then the ordering \<open>MAX(created_at) desc\<close> of the group-by step comes before it.
\<close>

theorem ReadPaginated_orders:
  assumes fl: "filterLoop env (snd (mergeDefaults h opts)) query (db, False) = Ret (db1, False)"
  shows "ReadPaginated env h query db opts =
       (fst (mergeDefaults h opts),
        case PaginateGeneric env (composeQuery query opts db1)
               (resolvePage query opts) (resolvePageSize query opts) of
          Panic p \<Rightarrow> Panic p
        | Ret (Inl err) \<Rightarrow> Ret (\<lparr>Data = None, Meta = None\<rparr>, Some (QueryExecutionError err))
        | Ret (Inr (rows, pagi)) \<Rightarrow>
            Ret (\<lparr>Data = Some rows, Meta = Some [''pagination'' \<mapsto> pagi]\<rparr>, None))
    \<and> orders (composeQuery query opts db1) =
         orders db
         @ (if AllowGroupBy opts \<and> Get query ''groupby'' \<noteq> [] then [''MAX(created_at) desc'']
            else [])
         @ [if Get query ''order'' \<noteq> [] then Get query ''order''
            else if OrderBy opts \<noteq> [] then OrderBy opts
            else ''created_at desc'']
    \<and> last (composeQuery query opts db1) =
         Order (if Get query ''order'' \<noteq> [] then Get query ''order''
                else if OrderBy opts \<noteq> [] then OrderBy opts
                else ''created_at desc'')"
proof -
  from filterLoop_adds_Where [OF fl] have "orders db1 = orders db"
    by (auto simp: orders_append)
  then show ?thesis
    using ReadPaginated_valid [OF fl] by (simp add: composeQuery_orders composeQuery_last)
qed

text \<open>A parameter over a default, a default alone, and neither.\<close>

theorem ReadPaginated_orders_witness:
  "orders (composeQuery [(''order'', [''name asc''])] (zeroOptions\<lparr>OrderBy := ''id desc''\<rparr>) [])
     = [''name asc'']
   \<and> snd (ReadPaginated echoEnv emptyStore [(''order'', [''name asc''])] []
        (zeroOptions\<lparr>OrderBy := ''id desc''\<rparr>))
       = Ret (\<lparr>Data = Some [Order ''name asc'', Limit 10, Offset 0],
               Meta = Some [''pagination'' \<mapsto> paginationMeta 0 1 10]\<rparr>, None)
   \<and> orders (composeQuery [(''page'', [''1''])] (zeroOptions\<lparr>OrderBy := ''id desc''\<rparr>) [])
     = [''id desc'']
   \<and> orders (composeQuery [(''page'', [''1''])] zeroOptions []) = [''created_at desc'']"
proof -
  let ?o = "zeroOptions\<lparr>OrderBy := ''id desc''\<rparr>"
  let ?q = "[(''order'', [''name asc''])]"
  let ?qn = "[(''page'', [''1''])]"
  have c: "composeQuery ?q ?o [] = [Order ''name asc'']"
    by (simp add: composeQuery_def applyPreload_def applySearch_def applyGroupBy_def
        applyOrderBy_def Get_def zeroOptions_def)
  have r: "resolvePage ?q ?o = 1" "resolvePageSize ?q ?o = 10"
    by (simp_all add: resolvePage_def resolvePageSize_def Get_def zeroOptions_def word_sless_alt)
  note T = ReadPaginated_orders [of echoEnv emptyStore ?o ?q "[]" "[]", OF no_filter_loop(4)]
  from T have a: "orders (composeQuery ?q ?o []) = [''name asc'']"
    by (simp add: Get_def zeroOptions_def)
  from T have b: "snd (ReadPaginated echoEnv emptyStore ?q [] ?o)
       = Ret (\<lparr>Data = Some [Order ''name asc'', Limit 10, Offset 0],
               Meta = Some [''pagination'' \<mapsto> paginationMeta 0 1 10]\<rparr>, None)"
    by (simp add: c r echo_run)
  from ReadPaginated_orders [of echoEnv emptyStore ?o ?qn "[]" "[]", OF no_filter_loop(2)]
  have d: "orders (composeQuery ?qn ?o []) = [''id desc'']"
    by (simp add: Get_def zeroOptions_def)
  from ReadPaginated_orders [of echoEnv emptyStore zeroOptions ?qn "[]" "[]", OF no_filter_loop(2)]
  have e: "orders (composeQuery ?qn zeroOptions []) = [''created_at desc'']"
    by (simp add: Get_def zeroOptions_def)
  show ?thesis using a b d e by simp
qed

text \<open>
  With group-by enabled, \<open>groupby=category_id\<close> and \<open>order=name asc\<close>, the request that
  reaches the fetch is ordered by \<open>MAX(created_at) desc\<close> first; the \<open>order\<close> parameter is
  the second ordering, not the applied one.
\<close>

theorem ReadPaginated_orders_counterexample:
  "AllowGroupBy (zeroOptions\<lparr>AllowGroupBy := True\<rparr>)
   \<and> Get [(''groupby'', [''category_id'']), (''order'', [''name asc''])] ''order'' = ''name asc''
   \<and> orders (composeQuery [(''groupby'', [''category_id'']), (''order'', [''name asc''])]
        (zeroOptions\<lparr>AllowGroupBy := True\<rparr>) [])
       = [''MAX(created_at) desc'', ''name asc'']
   \<and> snd (ReadPaginated echoEnv emptyStore
        [(''groupby'', [''category_id'']), (''order'', [''name asc''])] []
        (zeroOptions\<lparr>AllowGroupBy := True\<rparr>))
       = Ret (\<lparr>Data = Some [Select ''category_id, MAX(created_at) as created_at'',
                              Group ''category_id'', Order ''MAX(created_at) desc'',
                              Order ''name asc'', Limit 10, Offset 0],
               Meta = Some [''pagination'' \<mapsto> paginationMeta 0 1 10]\<rparr>, None)"
proof -
  let ?o = "zeroOptions\<lparr>AllowGroupBy := True\<rparr>"
  let ?q = "[(''groupby'', [''category_id'']), (''order'', [''name asc''])]"
  have c: "composeQuery ?q ?o [] =
      [Select ''category_id, MAX(created_at) as created_at'', Group ''category_id'',
       Order ''MAX(created_at) desc'', Order ''name asc'']"
    by (simp add: composeQuery_def applyGroupBy_def applyOrderBy_def applySearch_def
        applyPreload_def Get_def zeroOptions_def TrimSpace_category_id Split_category_id)
  have r: "resolvePage ?q ?o = 1" "resolvePageSize ?q ?o = 10"
    by (simp_all add: resolvePage_def resolvePageSize_def Get_def zeroOptions_def word_sless_alt)
  have "snd (ReadPaginated echoEnv emptyStore ?q [] ?o)
       = Ret (\<lparr>Data = Some (composeQuery ?q ?o [] @ [Limit 10, Offset 0]),
               Meta = Some [''pagination'' \<mapsto> paginationMeta 0 1 10]\<rparr>, None)"
    by (simp add: ReadPaginated_valid [OF no_filter_loop(3)] r echo_run)
  then show ?thesis by (simp add: c Get_def)
qed

section \<open>Page and page size\<close>

text \<open>
  Claim C8. For every raw parameter set the effective page and page size are at least
  1. A \<open>page\<close> parameter that \<open>Atoi\<close> rejects (absent, empty, not a number, out of range)
  or that is not positive is ignored: the page is then the configured \<open>DefaultPage\<close> when
  that is positive and 1 otherwise; likewise for \<open>pageSize\<close> with \<open>DefaultPageSize\<close> and
  10. Neither parameter is a source of errors: an error returned by \<open>ReadPaginated\<close> is
  either the invalid-filter error, and then a filter key with a field name has a first
  value with a part that fails coercion, or the error of the count or of the fetch; and
  a successful call reports the resolved page and page size in its metadata.
\<close>

theorem page_and_pageSize_resolution:
  "1 \<le>s resolvePage query opts \<and> 1 \<le>s resolvePageSize query opts
   \<and> (Atoi (Get query ''page'') = None \<or> (\<exists>n. Atoi (Get query ''page'') = Some n \<and> n \<le>s 0) \<longrightarrow>
        resolvePage query opts = (if DefaultPage opts \<le>s 0 then 1 else DefaultPage opts))
   \<and> (Atoi (Get query ''pageSize'') = None \<or> (\<exists>n. Atoi (Get query ''pageSize'') = Some n \<and> n \<le>s 0) \<longrightarrow>
        resolvePageSize query opts = (if DefaultPageSize opts \<le>s 0 then 10 else DefaultPageSize opts))
   \<and> (\<forall>r e. snd (ReadPaginated env h query db opts) = Ret (r, Some e) \<longrightarrow>
        (e = ErrInvalidFilter \<and>
           (\<exists>k val rest v. (k, val # rest) \<in> set query
              \<and> HasPrefix k ''filter['' \<and> HasSuffix k '']'' \<and> filterField k \<noteq> []
              \<and> v \<in> set (if Contains val CHR '','' then map TrimSpace (Split val CHR '','') else [val])
              \<and> (fieldTypeOf (snd (mergeDefaults h opts)) (filterField k) = ''int'' \<and> Atoi v = None
                  \<or> fieldTypeOf (snd (mergeDefaults h opts)) (filterField k) = ''uuid''
                     \<and> \<not> uuid_Parse env v)))
        \<or> (\<exists>msg d. e = QueryExecutionError msg \<and> (db_Count env d = Inl msg \<or> db_Find env d = Inl msg)))
   \<and> (\<forall>r. snd (ReadPaginated env h query db opts) = Ret (r, None) \<longrightarrow>
        (\<exists>m. Meta r = Some [''pagination'' \<mapsto> m]
           \<and> page m = resolvePage query opts \<and> pageSize m = resolvePageSize query opts))"
proof (intro conjI allI impI)
  show "1 \<le>s resolvePage query opts" by (rule resolvePage_pos)
  show "1 \<le>s resolvePageSize query opts" by (rule resolvePageSize_pos)
next
  assume "Atoi (Get query ''page'') = None \<or> (\<exists>n. Atoi (Get query ''page'') = Some n \<and> n \<le>s 0)"
  then show "resolvePage query opts = (if DefaultPage opts \<le>s 0 then 1 else DefaultPage opts)"
    by (rule resolvePage_default)
next
  assume "Atoi (Get query ''pageSize'') = None
    \<or> (\<exists>n. Atoi (Get query ''pageSize'') = Some n \<and> n \<le>s 0)"
  then show "resolvePageSize query opts
      = (if DefaultPageSize opts \<le>s 0 then 10 else DefaultPageSize opts)"
    by (rule resolvePageSize_default)
next
  fix r e
  assume r: "snd (ReadPaginated env h query db opts) = Ret (r, Some e)"
  show "(e = ErrInvalidFilter \<and>
           (\<exists>k val rest v. (k, val # rest) \<in> set query
              \<and> HasPrefix k ''filter['' \<and> HasSuffix k '']'' \<and> filterField k \<noteq> []
              \<and> v \<in> set (if Contains val CHR '','' then map TrimSpace (Split val CHR '','') else [val])
              \<and> (fieldTypeOf (snd (mergeDefaults h opts)) (filterField k) = ''int'' \<and> Atoi v = None
                  \<or> fieldTypeOf (snd (mergeDefaults h opts)) (filterField k) = ''uuid''
                     \<and> \<not> uuid_Parse env v)))
        \<or> (\<exists>msg d. e = QueryExecutionError msg \<and> (db_Count env d = Inl msg \<or> db_Find env d = Inl msg))"
  proof (cases rule: ReadPaginated_cases [of env h opts query db])
    case (panic p)
    with r show ?thesis by simp
  next
    case (invalid db1)
    with r have "e = ErrInvalidFilter" by simp
    with filterLoop_flag_origin [OF invalid(1)] show ?thesis by blast
  next
    case (failed db1 msg)
    with r have "e = QueryExecutionError msg" by simp
    with PaginateGeneric_error [OF failed(2)] show ?thesis by blast
  next
    case (paged db1 rows m)
    with r show ?thesis by simp
  qed
next
  fix r
  assume r: "snd (ReadPaginated env h query db opts) = Ret (r, None)"
  show "\<exists>m. Meta r = Some [''pagination'' \<mapsto> m]
           \<and> page m = resolvePage query opts \<and> pageSize m = resolvePageSize query opts"
  proof (cases rule: ReadPaginated_cases [of env h opts query db])
    case (panic p)
    with r show ?thesis by simp
  next
    case (invalid db1)
    with r show ?thesis by simp
  next
    case (failed db1 msg)
    with r show ?thesis by simp
  next
    case (paged db1 rows m)
    with r have "r = \<lparr>Data = Some rows, Meta = Some [''pagination'' \<mapsto> m]\<rparr>" by simp
    then have "Meta r = Some [''pagination'' \<mapsto> m]" by simp
    with PaginateGeneric_rows [OF paged(2)] show ?thesis by blast
  qed
qed

text \<open>A page that is not a number and a negative page size, with a default page of 3, on
  a request whose filter is invalid; and page 2 of a request that succeeds.\<close>

theorem page_and_pageSize_resolution_witness:
  "Atoi (Get [(''page'', [''abc'']), (''pageSize'', [''-5'']), (''filter[jumlah]'', [''x''])] ''page'') = None
   \<and> (\<exists>n. Atoi (Get [(''page'', [''abc'']), (''pageSize'', [''-5'']), (''filter[jumlah]'', [''x''])]
              ''pageSize'') = Some n \<and> n \<le>s 0)
   \<and> resolvePage [(''page'', [''abc'']), (''pageSize'', [''-5'']), (''filter[jumlah]'', [''x''])]
        (zeroOptions\<lparr>DefaultPage := 3\<rparr>) = 3
   \<and> resolvePageSize [(''page'', [''abc'']), (''pageSize'', [''-5'']), (''filter[jumlah]'', [''x''])]
        (zeroOptions\<lparr>DefaultPage := 3\<rparr>) = 10
   \<and> snd (ReadPaginated (sampleEnv 7 [()]) emptyStore
        [(''page'', [''abc'']), (''pageSize'', [''-5'']), (''filter[jumlah]'', [''x''])] []
        (zeroOptions\<lparr>DefaultPage := 3\<rparr>))
       = Ret (\<lparr>Data = Some [], Meta = Some Map.empty\<rparr>, Some ErrInvalidFilter)
   \<and> snd (ReadPaginated (sampleEnv 7 [()]) emptyStore [(''page'', [''2''])] [] zeroOptions)
       = Ret (\<lparr>Data = Some [()], Meta = Some [''pagination'' \<mapsto> paginationMeta 7 2 10]\<rparr>, None)
   \<and> resolvePage [(''page'', [''2''])] zeroOptions = 2"
proof -
  let ?q = "[(''page'', [''abc'']), (''pageSize'', [''-5'']), (''filter[jumlah]'', [''x''])]"
  let ?o = "zeroOptions\<lparr>DefaultPage := 3\<rparr>"
  note T = page_and_pageSize_resolution [of ?q ?o "sampleEnv 7 [()]" emptyStore "[]"]
  have g: "Get ?q ''page'' = ''abc''" "Get ?q ''pageSize'' = ''-5''"
    by (simp_all add: Get_def)
  have a1: "Atoi (Get ?q ''page'') = None"
    by (simp add: g Atoi_samples)
  have a2: "\<exists>n. Atoi (Get ?q ''pageSize'') = Some n \<and> n \<le>s 0"
    by (simp add: g Atoi_samples word_sle_eq)
  from T a1 have "resolvePage ?q ?o = (if DefaultPage ?o \<le>s 0 then 1 else DefaultPage ?o)"
    by blast
  then have p: "resolvePage ?q ?o = 3"
    by (simp add: zeroOptions_def word_sle_eq)
  from T a2 have "resolvePageSize ?q ?o = (if DefaultPageSize ?o \<le>s 0 then 10 else DefaultPageSize ?o)"
    by blast
  then have ps: "resolvePageSize ?q ?o = 10"
    by (simp add: zeroOptions_def word_sle_eq)
  have m: "mergeDefaults emptyStore ?o = mergeDefaults emptyStore zeroOptions"
    by (simp add: mergeDefaults_def zeroOptions_def)
  have "filterLoop (sampleEnv 7 [()]) (snd (mergeDefaults emptyStore ?o)) ?q ([], False)
      = Ret ([], True)"
    unfolding m
    by (simp add: filterEntry_def HasPrefix_def HasSuffix_def filterField_def Contains_def
        zero_fieldTypes Atoi_samples)
  then have e: "snd (ReadPaginated (sampleEnv 7 [()]) emptyStore ?q [] ?o)
       = Ret (\<lparr>Data = Some [], Meta = Some Map.empty\<rparr>, Some ErrInvalidFilter)"
    by (simp add: ReadPaginated_invalid)
  have r2: "resolvePage [(''page'', [''2''])] zeroOptions = 2"
    "resolvePageSize [(''page'', [''2''])] zeroOptions = 10"
    by (simp_all add: resolvePage_def resolvePageSize_def Get_def zeroOptions_def Atoi_samples
        word_sle_eq word_sless_alt)
  have "filterLoop (sampleEnv 7 [()]) (snd (mergeDefaults emptyStore zeroOptions))
      [(''page'', [''2''])] ([], False) = Ret ([], False)"
    by (simp add: filterEntry_def HasPrefix_def)
  then have s: "snd (ReadPaginated (sampleEnv 7 [()]) emptyStore [(''page'', [''2''])] [] zeroOptions)
       = Ret (\<lparr>Data = Some [()], Meta = Some [''pagination'' \<mapsto> paginationMeta 7 2 10]\<rparr>, None)"
    by (simp add: ReadPaginated_valid r2 PaginateGeneric_def sampleEnv_simps)
  show ?thesis
    using a1 a2 p ps e s r2(1) by (intro conjI)
qed

section \<open>The access to the first value of a filter\<close>

text \<open>
  Claim C9. A key \<open>filter[<field>]\<close> names a field: the field between the brackets is
  not empty (the loop skips the key \<open>filter[]\<close> before it looks at the values). If the
  raw parameter map contains such a key with an empty value list, \<open>ReadPaginated\<close> indexes
  element 0 of that list and panics with an index out of range, whatever else the map
  holds and in whatever order the loop visits it. For every parameter map in which each
  present key has at least one value the access is within bounds: the filter loop runs
  to its end and returns a handle and a flag, and the whole call does not panic.
\<close>

theorem filter_first_value_access:
  "(field \<noteq> [] \<and> (''filter['' @ field @ '']'', []) \<in> set query \<longrightarrow>
      ReadPaginated env h query db opts = (fst (mergeDefaults h opts), Panic IndexOutOfRange))
   \<and> ((\<forall>(k, vs)\<in>set query. vs \<noteq> []) \<longrightarrow>
        (\<exists>db1 flag. filterLoop env (snd (mergeDefaults h opts)) query (db, False) = Ret (db1, flag))
        \<and> (\<forall>p. snd (ReadPaginated env h query db opts) \<noteq> Panic p))"
proof (intro conjI impI)
  assume a: "field \<noteq> [] \<and> (''filter['' @ field @ '']'', []) \<in> set query"
  have k: "HasPrefix (''filter['' @ field @ '']'') ''filter[''"
    "HasSuffix (''filter['' @ field @ '']'') '']''"
    "filterField (''filter['' @ field @ '']'') \<noteq> []"
    using a by (simp_all only: filter_key_recognised not_False_eq_True)
  have "filterLoop env (snd (mergeDefaults h opts)) query (db, False) = Panic IndexOutOfRange"
    using a by (intro filterLoop_empty_values [OF _ k]) simp
  then show "ReadPaginated env h query db opts = (fst (mergeDefaults h opts), Panic IndexOutOfRange)"
    by (rule ReadPaginated_panic)
next
  assume wf: "\<forall>(k, vs)\<in>set query. vs \<noteq> []"
  then have wf': "\<forall>(k, vs)\<in>set query.
      HasPrefix k ''filter['' \<and> HasSuffix k '']'' \<and> filterField k \<noteq> [] \<longrightarrow> vs \<noteq> []"
    by auto
  show t: "\<exists>db1 flag. filterLoop env (snd (mergeDefaults h opts)) query (db, False) = Ret (db1, flag)"
    using filterLoop_total [OF wf'] .
  then obtain db1 flag
    where l: "filterLoop env (snd (mergeDefaults h opts)) query (db, False) = Ret (db1, flag)"
    by blast
  show "\<forall>p. snd (ReadPaginated env h query db opts) \<noteq> Panic p"
  proof (cases flag)
    case True
    with l show ?thesis by (simp add: ReadPaginated_invalid)
  next
    case False
    then show ?thesis
      using l PaginateGeneric_no_panic [OF resolvePageSize_nonzero, of env "composeQuery query opts db1"
          "resolvePage query opts" query opts]
      by (auto simp: ReadPaginated_valid split: go.splits sum.splits)
  qed
qed

text \<open>The key \<open>filter[status]\<close> without a value, and with the value \<open>active\<close>.\<close>

theorem filter_first_value_access_witness:
  "''status'' \<noteq> [] \<and> (''filter['' @ ''status'' @ '']'', []) \<in> set [(''page'', [''1'']), (''filter[status]'', [])]
   \<and> ReadPaginated (sampleEnv 7 [()]) emptyStore [(''page'', [''1'']), (''filter[status]'', [])] []
        zeroOptions = (emptyStore, Panic IndexOutOfRange)
   \<and> (\<forall>p. snd (ReadPaginated (sampleEnv 7 [()]) emptyStore
              [(''page'', [''1'']), (''filter[status]'', [''active''])] [] zeroOptions) \<noteq> Panic p)"
proof -
  have a: "''status'' \<noteq> [] \<and> (''filter['' @ ''status'' @ '']'', [])
      \<in> set [(''page'', [''1'']), (''filter[status]'', [])]"
    by simp
  have b: "\<forall>(k, vs)\<in>set [(''page'', [''1'']), (''filter[status]'', [''active''])]. vs \<noteq> []"
    by simp
  from a filter_first_value_access [of "''status''" "[(''page'', [''1'']), (''filter[status]'', [])]"
      "sampleEnv 7 [()]" emptyStore "[]" zeroOptions]
  have c: "ReadPaginated (sampleEnv 7 [()]) emptyStore [(''page'', [''1'']), (''filter[status]'', [])] []
        zeroOptions = (emptyStore, Panic IndexOutOfRange)"
    unfolding zero_store by blast
  from b filter_first_value_access [of "''status''"
      "[(''page'', [''1'']), (''filter[status]'', [''active''])]"
      "sampleEnv 7 [()]" emptyStore "[]" zeroOptions]
  have d: "\<forall>p. snd (ReadPaginated (sampleEnv 7 [()]) emptyStore
              [(''page'', [''1'']), (''filter[status]'', [''active''])] [] zeroOptions) \<noteq> Panic p"
    by blast
  show ?thesis using a c d by (intro conjI) simp_all
qed

section \<open>The wrapper for Gin\<close>

text \<open>
  Claim C10. For every query parameter set, database handle and options (and every
  store and every behaviour of the collaborators), \<open>ReadPaginatedFromGin\<close> returns
  exactly what \<open>ReadPaginated\<close> returns on the same arguments: the same result and error,
  or the same panic, and the same store.
\<close>

theorem ReadPaginatedFromGin_eq:
  "ReadPaginatedFromGin env h ctxQuery db opts = ReadPaginated env h ctxQuery db opts"
  by (simp add: ReadPaginatedFromGin_def)

end
